theory Spec2Isabelle
  imports Main "HOL-Library.Char_ord" "HOL-Library.List_Lexorder" "HOL-Library.Product_Lexorder"
    "HOL-Library.Multiset"
begin

section \<open>Python strings and numbers\<close>

text \<open>
  A Python \<open>str\<close> is modelled as a \<open>string\<close> whose characters are the code points
  below 256.  In that range the decimal digits are \<open>0\<close> to \<open>9\<close>, and the characters for
  which \<open>str.isspace\<close> holds (the same set that \<open>\s\<close> matches in a \<open>str\<close> pattern and that
  \<open>str.strip()\<close> and \<open>str.split()\<close> remove) are the twelve listed in \<open>isspace\<close>.
\<close>

definition isspace :: "char \<Rightarrow> bool" where
  "isspace c = (c \<in> set [CHR 0x09, CHR 0x0A, CHR 0x0B, CHR 0x0C, CHR 0x0D,
                             CHR 0x1C, CHR 0x1D, CHR 0x1E, CHR 0x1F, CHR 0x20,
                             CHR 0x85, CHR 0xA0])"

definition isdigit :: "char \<Rightarrow> bool" where
  "isdigit c = (c \<in> set ''0123456789'')"

definition isalpha_ascii :: "char \<Rightarrow> bool" where
  "isalpha_ascii c = (c \<in> set ''abcdefghijklmnopqrstuvwxyzABCDEFGHIJKLMNOPQRSTUVWXYZ'')"

definition digit_val :: "char \<Rightarrow> nat" where
  "digit_val c = of_char c - 48"

definition digit_char :: "nat \<Rightarrow> char" where
  "digit_char n = ''0123456789'' ! n"

text \<open>\<open>str.lower()\<close>: the upper-case letters below 256 are A-Z and 0xC0-0xDE without 0xD7;
  each is lowered by setting bit 5.\<close>

definition lower_char :: "char \<Rightarrow> char" where
  "lower_char c = (let n = (of_char c :: nat) in
     if (65 \<le> n \<and> n \<le> 90) \<or> (192 \<le> n \<and> n \<le> 222 \<and> n \<noteq> 215)
     then (case c of Char b0 b1 b2 b3 b4 b5 b6 b7 \<Rightarrow> Char b0 b1 b2 b3 b4 True b6 b7)
     else c)"

definition lower :: "string \<Rightarrow> string" where
  "lower s = map lower_char s"

definition startswith :: "string \<Rightarrow> string \<Rightarrow> bool" where
  "startswith s p = (take (length p) s = p)"

definition endswith :: "string \<Rightarrow> string \<Rightarrow> bool" where
  "endswith s p = (length p \<le> length s \<and> drop (length s - length p) s = p)"

definition strip :: "string \<Rightarrow> string" where
  "strip s = rev (dropWhile isspace (rev (dropWhile isspace s)))"

text \<open>\<open>s.split(c, 1)\<close>: the text before the first \<open>c\<close>, and the text after it when there
  is one (the list has one element otherwise, so that \<open>parts[1]\<close> raises).\<close>

definition split_once :: "char \<Rightarrow> string \<Rightarrow> string \<times> string option" where
  "split_once c s = (takeWhile (\<lambda>x. x \<noteq> c) s,
     if c \<in> set s then Some (tl (dropWhile (\<lambda>x. x \<noteq> c) s)) else None)"

text \<open>\<open>s.split(c)\<close> with a one-character separator: never empty.\<close>

fun split_char :: "char \<Rightarrow> string \<Rightarrow> string \<Rightarrow> string list" where
  "split_char sep cur [] = [cur]"
| "split_char sep cur (c # cs) =
     (if c = sep then cur # split_char sep [] cs else split_char sep (cur @ [c]) cs)"

text \<open>\<open>s.split()\<close>: the maximal runs of characters that are not white space.\<close>

fun split_ws :: "string \<Rightarrow> string \<Rightarrow> string list" where
  "split_ws cur [] = (if cur = [] then [] else [cur])"
| "split_ws cur (c # cs) =
     (if isspace c then (if cur = [] then split_ws [] cs else cur # split_ws [] cs)
      else split_ws (cur @ [c]) cs)"

text \<open>\<open>re.split(",\s*", v)\<close>: a separator is a comma with all the white space after it.
  The flag says that the scan is inside the white space of a separator.\<close>

fun re_split_comma :: "bool \<Rightarrow> string \<Rightarrow> string \<Rightarrow> string list" where
  "re_split_comma insep cur [] = [cur]"
| "re_split_comma insep cur (c # cs) =
     (if insep \<and> isspace c then re_split_comma True cur cs
      else if c = CHR '','' then cur # re_split_comma True [] cs
      else re_split_comma False (cur @ [c]) cs)"

text \<open>\<open>re.split(",?\s+", v)\<close>: a separator is a run of white space, with the comma before
  it when there is one; a comma that no white space follows is no separator.\<close>

fun re_split_comma_ws :: "bool \<Rightarrow> string \<Rightarrow> string \<Rightarrow> string list" where
  "re_split_comma_ws insep cur [] = [cur]"
| "re_split_comma_ws insep cur (c # cs) =
     (if insep \<and> isspace c then re_split_comma_ws True cur cs
      else if isspace c then cur # re_split_comma_ws True [] cs
      else if c = CHR '','' \<and> (case cs of [] \<Rightarrow> False | d # _ \<Rightarrow> isspace d)
        then cur # re_split_comma_ws True [] cs
      else re_split_comma_ws False (cur @ [c]) cs)"

fun py_join :: "string \<Rightarrow> string list \<Rightarrow> string" where
  "py_join sep [] = []"
| "py_join sep [x] = x"
| "py_join sep (x # y # ys) = x @ sep @ py_join sep (y # ys)"

text \<open>\<open>int(s)\<close> on a \<open>str\<close>: white space around it is dropped, one sign is allowed, then
  decimal digits with single underscores between digits.  Anything else raises ValueError,
  here \<open>None\<close>.  The white space that \<open>int\<close> drops is not that of \<open>str.strip\<close>: the four
  separators 0x1C to 0x1F are not dropped.\<close>

definition isspace_int :: "char \<Rightarrow> bool" where
  "isspace_int c = (c \<in> set [CHR 0x09, CHR 0x0A, CHR 0x0B, CHR 0x0C, CHR 0x0D, CHR 0x20,
                                 CHR 0x85, CHR 0xA0])"

definition strip_int :: "string \<Rightarrow> string" where
  "strip_int s = rev (dropWhile isspace_int (rev (dropWhile isspace_int s)))"

fun int_digits :: "nat \<Rightarrow> string \<Rightarrow> nat option" where
  "int_digits acc [] = Some acc"
| "int_digits acc [c] = (if isdigit c then Some (acc * 10 + digit_val c) else None)"
| "int_digits acc (c # d # ds) =
     (if isdigit c then int_digits (acc * 10 + digit_val c) (d # ds)
      else if c = CHR ''_'' \<and> isdigit d then int_digits (acc * 10 + digit_val d) ds
      else None)"

definition py_int :: "string \<Rightarrow> int option" where
  "py_int s =
     (case strip_int s of
        [] \<Rightarrow> None
      | c # cs \<Rightarrow>
          if c = CHR ''-'' then
            (case cs of [] \<Rightarrow> None
             | d # ds \<Rightarrow> if isdigit d then map_option (\<lambda>n. - int n) (int_digits (digit_val d) ds)
                         else None)
          else if c = CHR ''+'' then
            (case cs of [] \<Rightarrow> None
             | d # ds \<Rightarrow> if isdigit d then map_option int (int_digits (digit_val d) ds)
                         else None)
          else if isdigit c then map_option int (int_digits (digit_val c) cs)
          else None)"

text \<open>The \<open>%\<close> conversions of the two scripts: \<open>%d\<close> and \<open>%i\<close>, \<open>%0wd\<close> (zeros up to a
  width that counts the sign) and \<open>%0.pd\<close> (at least \<open>p\<close> digits, the sign apart).\<close>

fun str_nat :: "nat \<Rightarrow> string" where
  "str_nat n = (if n < 10 then [digit_char n] else str_nat (n div 10) @ [digit_char (n mod 10)])"

declare str_nat.simps [simp del]

definition fmt_d :: "int \<Rightarrow> string" where
  "fmt_d n = (if n < 0 then CHR ''-'' # str_nat (nat (- n)) else str_nat (nat n))"

definition fmt_0d :: "nat \<Rightarrow> int \<Rightarrow> string" where
  "fmt_0d w n =
     (if n < 0
      then CHR ''-'' # replicate (w - 1 - length (str_nat (nat (- n)))) CHR ''0'' @ str_nat (nat (- n))
      else replicate (w - length (str_nat (nat n))) CHR ''0'' @ str_nat (nat n))"

definition fmt_prec_d :: "nat \<Rightarrow> int \<Rightarrow> string" where
  "fmt_prec_d p n =
     (if n < 0
      then CHR ''-'' # replicate (p - length (str_nat (nat (- n)))) CHR ''0'' @ str_nat (nat (- n))
      else replicate (p - length (str_nat (nat n))) CHR ''0'' @ str_nat (nat n))"

text \<open>\<open>html.escape(s)\<close> with its default \<open>quote=True\<close>.\<close>

definition escape_char :: "char \<Rightarrow> string" where
  "escape_char c =
     (if c = CHR ''&'' then ''&amp;''
      else if c = CHR ''<'' then ''&lt;''
      else if c = CHR ''>'' then ''&gt;''
      else if c = CHR 0x22 then ''&quot;''
      else if c = CHR 0x27 then ''&#x27;''
      else [c])"

definition escape :: "string \<Rightarrow> string" where
  "escape s = concat (map escape_char s)"

text \<open>\<open>os.path.basename\<close> and \<open>os.path.splitext\<close> of \<open>posixpath\<close>.\<close>

definition basename :: "string \<Rightarrow> string" where
  "basename p = rev (takeWhile (\<lambda>c. c \<noteq> CHR ''/'') (rev p))"

definition splitext :: "string \<Rightarrow> string \<times> string" where
  "splitext p =
     (let name = basename p;
          ext = rev (takeWhile (\<lambda>c. c \<noteq> CHR ''.'') (rev name));
          stem = take (length name - length ext - 1) name
      in if CHR ''.'' \<in> set name \<and> (\<exists>c \<in> set stem. c \<noteq> CHR ''.'')
         then (take (length p - length ext - 1) p, CHR ''.'' # ext)
         else (p, []))"

section \<open>Errors and the environment\<close>

text \<open>
  An exception that leaves a function is a value \<open>Inl e\<close>.  \<open>ValueError\<close> carries the text
  that could not be converted.  \<open>EnvError\<close> stands for an exception raised inside one of
  the library calls that the model takes as parameters.
\<close>

datatype error = ValueError string | IndexError | TypeError | NameError | EnvError string

text \<open>
  The library calls whose results the converter only passes on:
  \<open>email.utils.parseaddr\<close>; the formatted modification time of the input file,
  \<open>time.strftime("%d-%b-%Y", time.localtime(os.stat(inpath)[8]))\<close>; \<open>re.sub(pattern, repl,
  line, 1)\<close> for a pattern that is a token of the input; and \<open>str(error)\<close>, the message of an
  exception.
\<close>

record env =
  parseaddr :: "string \<Rightarrow> string \<times> string"
  file_mtime :: "string \<Rightarrow> error + string"
  re_sub_first :: "string \<Rightarrow> string \<Rightarrow> string \<Rightarrow> error + string"
  error_text :: "error \<Rightarrow> string"

section \<open>sep2html.py: the plaintext converter\<close>

subsection \<open>Constants\<close>

definition RFCURL :: "int \<Rightarrow> string" where
  "RFCURL n = ''http://www.faqs.org/rfcs/rfc'' @ fmt_d n @ ''.html''"

definition SEPURL :: "int \<Rightarrow> string" where
  "SEPURL n = ''sep-'' @ fmt_0d 4 n @ ''.html''"

definition SEPCVSURL :: "int \<Rightarrow> string" where
  "SEPCVSURL n = ''https://hg.python.org/peps/file/tip/pep-'' @ fmt_0d 4 n @ ''.txt''"

definition LOCALVARS :: string where
  "LOCALVARS = ''Local Variables:''"

definition COMMENT :: string where
  "COMMENT = ''<!--\<newline>This HTML is auto-generated.  DO NOT EDIT THIS FILE!  If you are writing a new\<newline>SEP, see http://www.python.org/seps/sep-0001.html for instructions and links\<newline>to templates.  DO NOT USE THIS HTML FILE AS YOUR TEMPLATE!\<newline>-->''"

definition DTD :: string where
  \<open>DTD = ''<!DOCTYPE html PUBLIC "-//W3C//DTD HTML 4.0 Transitional//EN"\<newline>                      "http://www.w3.org/TR/REC-html40/loose.dtd">''\<close>

definition NON_MASKED_EMAILS :: "string list" where
  "NON_MASKED_EMAILS = [''seps@python.org'', ''python-list@python.org'', ''python-dev@python.org'']"

subsection \<open>The pattern \<open>fixpat\<close>\<close>

text \<open>
  \<open>fixpat\<close> is an alternation of five branches, tried in this order where a match is
  attempted: a URL, a \<open>sep-N\<close> file name, \<open>RFC N\<close>, \<open>SEP N\<close>, any character but a
  newline.  Every repetition in it is followed by nothing or by a character outside its
  class, so the first match that backtracking finds is the one with each repetition
  maximal.  Each matcher returns the matched text (group 0), and the digits of the named
  group for the two cross-references.
\<close>

definition urlchar :: "char \<Rightarrow> bool" where
  "urlchar c = (isalpha_ascii c \<or> isdigit c \<or> c \<in> set ''-_/.+~:?#$=&,'')"

definition url_scheme :: "string \<Rightarrow> string" where
  "url_scheme s =
     (if startswith s ''https:'' then ''https:''
      else if startswith s ''http:'' then ''http:''
      else if startswith s ''ftp:'' then ''ftp:''
      else [])"

definition match_url :: "string \<Rightarrow> string option" where
  "match_url s =
     (let scheme = url_scheme s; rest = takeWhile urlchar (drop (length scheme) s)
      in if scheme = [] \<or> rest = [] then None else Some (scheme @ rest))"

definition match_sepfile :: "string \<Rightarrow> string option" where
  "match_sepfile s =
     (if startswith s ''sep-'' then
        (let ds = takeWhile isdigit (drop 4 s); r = drop (4 + length ds) s
         in if ds = [] then None
            else if (case r of [] \<Rightarrow> False
                     | x # y \<Rightarrow> x \<noteq> CHR 0x0A \<and> (startswith y ''txt'' \<or> startswith y ''rst''))
            then Some (''sep-'' @ ds @ take 4 r)
            else Some (''sep-'' @ ds))
      else None)"

definition match_rfc :: "string \<Rightarrow> (string \<times> string) option" where
  "match_rfc s =
     (if startswith s ''RFC'' then
        (let opt = (case drop 3 s of [] \<Rightarrow> []
                    | c # _ \<Rightarrow> if c = CHR ''-'' \<or> c = CHR '' '' then [c] else []);
             ds = takeWhile isdigit (drop (3 + length opt) s)
         in if ds = [] then None else Some (''RFC'' @ opt @ ds, ds))
      else None)"

definition match_sep :: "string \<Rightarrow> (string \<times> string) option" where
  "match_sep s =
     (if startswith s ''SEP'' then
        (let ws = takeWhile isspace (drop 3 s);
             ds = takeWhile isdigit (drop (3 + length ws) s)
         in if ws = [] \<or> ds = [] then None else Some (''SEP'' @ ws @ ds, ds))
      else None)"

definition match_dot :: "string \<Rightarrow> string option" where
  "match_dot s = (case s of [] \<Rightarrow> None | c # _ \<Rightarrow> if c = CHR 0x0A then None else Some [c])"

datatype fixmatch = Match (group0: string) (rfcnum: "string option") (sepnum: "string option")

definition fixpat_match :: "string \<Rightarrow> fixmatch option" where
  "fixpat_match s =
     (case match_url s of Some t \<Rightarrow> Some (Match t None None)
      | None \<Rightarrow>
     (case match_sepfile s of Some t \<Rightarrow> Some (Match t None None)
      | None \<Rightarrow>
     (case match_rfc s of Some (t, d) \<Rightarrow> Some (Match t (Some d) None)
      | None \<Rightarrow>
     (case match_sep s of Some (t, d) \<Rightarrow> Some (Match t None (Some d))
      | None \<Rightarrow>
     (case match_dot s of Some t \<Rightarrow> Some (Match t None None)
      | None \<Rightarrow> None)))))"

subsection \<open>\<open>fixanchor\<close>\<close>

definition url_punctuation :: string where
  "url_punctuation = ''();:,.?'' @ [CHR 0x27, CHR 0x22] @ ''<>''"

text \<open>The \<open>while ltext\<close> loop: characters are popped from the end until one is not
  punctuation.\<close>

definition strip_trailing_punctuation :: "string \<Rightarrow> string" where
  "strip_trailing_punctuation text = rev (dropWhile (\<lambda>c. c \<in> set url_punctuation) (rev text))"

definition anchor :: "string option \<Rightarrow> string \<Rightarrow> string" where
  \<open>anchor link text =
     (case link of
        None \<Rightarrow> escape text
      | Some l \<Rightarrow> if l = [] then escape text
                  else ''<a href="'' @ escape l @ ''">'' @ escape text @ ''</a>'')\<close>

definition fixanchor :: "string \<Rightarrow> fixmatch \<Rightarrow> error + string" where
  "fixanchor current m =
     (let text = group0 m in
      if startswith text ''http:'' \<or> startswith text ''https:'' \<or> startswith text ''ftp:''
        then Inr (anchor (Some (strip_trailing_punctuation text)) text)
      else if startswith text ''sep-'' \<and> text \<noteq> current
        then Inr (anchor (Some (fst (splitext text) @ ''.html'')) text)
      else if startswith text ''SEP'' then
        (case sepnum m of None \<Rightarrow> Inl TypeError
         | Some d \<Rightarrow> (case py_int d of None \<Rightarrow> Inl (ValueError d)
                       | Some n \<Rightarrow> Inr (anchor (Some (SEPURL n)) text)))
      else if startswith text ''RFC'' then
        (case rfcnum m of None \<Rightarrow> Inl TypeError
         | Some d \<Rightarrow> (case py_int d of None \<Rightarrow> Inl (ValueError d)
                       | Some n \<Rightarrow> Inr (anchor (Some (RFCURL n)) text)))
      else Inr (anchor None text))"

subsection \<open>\<open>fixpat.sub\<close>\<close>

lemma fixpat_match_nonempty: "fixpat_match s = Some m \<Longrightarrow> group0 m \<noteq> []"
  by (auto simp: fixpat_match_def match_url_def match_sepfile_def match_rfc_def match_sep_def
      match_dot_def Let_def split: option.splits if_splits list.splits)

text \<open>
  \<open>fixpat.sub(f, line)\<close> scans the line once from the left: where the pattern matches,
  the match is replaced by what \<open>f\<close> returns and the scan goes on after the match; where it
  does not (at a newline), the character is copied.
\<close>

function fixpat_sub :: "string \<Rightarrow> string \<Rightarrow> error + string" where
  "fixpat_sub current [] = Inr []"
| "fixpat_sub current (c # cs) =
     (case fixpat_match (c # cs) of
        None \<Rightarrow> (case fixpat_sub current cs of Inl e \<Rightarrow> Inl e | Inr out \<Rightarrow> Inr (c # out))
      | Some m \<Rightarrow>
          (case fixanchor current m of
             Inl e \<Rightarrow> Inl e
           | Inr a \<Rightarrow>
               (case fixpat_sub current (drop (length (group0 m)) (c # cs)) of
                  Inl e \<Rightarrow> Inl e
                | Inr out \<Rightarrow> Inr (a @ out))))"
  by pat_completeness auto
termination
proof (relation "measure (\<lambda>(current, s). length s)")
  show "wf (measure (\<lambda>(current, s). length s))"
    by simp
next
  fix current :: string and c :: char and cs :: string
  show "((current, cs), (current, c # cs)) \<in> measure (\<lambda>(current, s). length s)"
    by simp
next
  fix current :: string and c :: char and cs :: string and m :: fixmatch and a :: string
  assume "fixpat_match (c # cs) = Some m"
  then have "group0 m \<noteq> []"
    by (rule fixpat_match_nonempty)
  then have "0 < length (group0 m)"
    by simp
  then show "((current, drop (length (group0 m)) (c # cs)), (current, c # cs))
      \<in> measure (\<lambda>(current, s). length s)"
    by simp
qed

declare fixpat_sub.simps [simp del]

subsection \<open>E-mail addresses\<close>

definition linkemail :: "string \<Rightarrow> string \<Rightarrow> error + string" where
  \<open>linkemail address sepno =
     (case split_once (CHR ''@'') address of
        (p0, None) \<Rightarrow> Inl IndexError
      | (p0, Some p1) \<Rightarrow>
          Inr (''<a href="mailto:'' @ p0 @ ''&#64;'' @ p1 @ ''?subject=SEP%20'' @ sepno @ ''">''
               @ p0 @ ''&#32;&#97;t&#32;'' @ p1 @ ''</a>''))\<close>

definition fixemail :: "string \<Rightarrow> string \<Rightarrow> error + string" where
  "fixemail address sepno =
     (if lower address \<in> set NON_MASKED_EMAILS then linkemail address sepno
      else (case split_once (CHR ''@'') address of
              (p0, None) \<Rightarrow> Inl IndexError
            | (p0, Some p1) \<Rightarrow> Inr (p0 @ ''&#32;&#97;t&#32;'' @ p1)))"

subsection \<open>\<open>fixfile\<close>: the header\<close>

text \<open>
  The first loop of \<open>fixfile\<close>.  It returns the header, \<open>sep\<close>, \<open>title\<close> and the lines that
  the iterator has not consumed.  The line that ends the header is consumed.  After each
  header or continuation line, \<open>key\<close> and \<open>value\<close> are those of the last header entry.
\<close>

fun parse_header ::
  "string list \<Rightarrow> (string \<times> string) list \<Rightarrow> string \<Rightarrow> string
    \<Rightarrow> error + ((string \<times> string) list \<times> string \<times> string \<times> string list)" where
  "parse_header [] header sep title = Inr (header, sep, title, [])"
| "parse_header ([] # rest) header sep title = Inr (header, sep, title, rest)"
| "parse_header ((c # cs) # rest) header sep title =
     (let line = c # cs in
      if strip line = [] then Inr (header, sep, title, rest)
      else if \<not> isspace c then
        (if CHR '':'' \<notin> set line then Inr (header, sep, title, rest)
         else
           (let key = takeWhile (\<lambda>x. x \<noteq> CHR '':'') line;
                vl = strip (tl (dropWhile (\<lambda>x. x \<noteq> CHR '':'') line))
            in parse_header rest (header @ [(key, vl)])
                 (if lower key \<noteq> ''title'' \<and> lower key = ''sep'' then vl else sep)
                 (if lower key = ''title'' then vl else title)))
      else
        (case rev header of
           [] \<Rightarrow> Inl IndexError
         | (key, v) # earlier \<Rightarrow>
             (let vl = v @ line
              in parse_header rest (rev earlier @ [(key, vl)])
                   (if lower key \<noteq> ''title'' \<and> lower key = ''sep'' then vl else sep)
                   (if lower key = ''title'' then vl else title))))"

definition doc_title :: "string \<Rightarrow> string \<Rightarrow> string" where
  "doc_title sep title = (if sep \<noteq> [] then ''SEP '' @ sep @ '' -- '' @ title else title)"

definition title_line :: "string \<Rightarrow> string" where
  "title_line title =
     (if title \<noteq> [] then ''  <title>'' @ escape title @ ''</title>\<newline>'' else [])"

text \<open>The navigation table: the text of the format string before and after its \<open>%03d\<close>,
  which takes the number of the banner image.\<close>

definition navigation_head :: string where
  \<open>navigation_head =
     ''  <link rel="STYLESHEET" href="style.css" type="text/css" />\<newline></head>\<newline><body bgcolor="white">\<newline><table class="navigation" cellpadding="0" cellspacing="0"\<newline>       width="100%" border="0">\<newline><tr><td class="navicon" width="150" height="35">\<newline><a href="../" title="Python Home Page">\<newline><img src="../pics/PyBanner''\<close>

definition navigation_tail :: string where
  \<open>navigation_tail =
     ''.gif" alt="[Python]"\<newline> border="0" width="150" height="35" /></a></td>\<newline><td class="textlinks" align="left">\<newline>[<b><a href="../">Python Home</a></b>]''\<close>

definition navigation :: "nat \<Rightarrow> string" where
  "navigation r = navigation_head @ fmt_0d 3 (int r) @ navigation_tail @ ''\<newline>''"

definition index_link :: "string \<Rightarrow> string" where
  \<open>index_link inpath =
     (if basename inpath \<noteq> ''sep-0000.txt'' then ''[<b><a href=".">SEP Index</a></b>]\<newline>'' else [])\<close>

text \<open>The \<open>SEP Source\<close> link: what is printed to the output file, and what to \<open>sys.stderr\<close>.\<close>

definition source_link :: "env \<Rightarrow> string \<Rightarrow> string \<times> string" where
  \<open>source_link e sep =
     (if sep \<noteq> [] then
        (case py_int sep of
           Some n \<Rightarrow> (''[<b><a href="sep-'' @ fmt_0d 4 n @ ''.txt">SEP Source</a></b>]\<newline>'', [])
         | None \<Rightarrow> ([], ''ValueError (invalid SEP number): '' @ error_text e (ValueError sep)
                        @ ''\<newline>''))
      else ([], []))\<close>

subsection \<open>\<open>fixfile\<close>: the table of header fields\<close>

definition mail_part :: "env \<Rightarrow> string \<Rightarrow> string \<Rightarrow> string \<Rightarrow> error + string" where
  \<open>mail_part e k sep part =
     (if CHR ''@'' \<in> set part then
        (case parseaddr e part of
           (realname, addr) \<Rightarrow>
             (case (if lower k = ''discussions-to'' then linkemail addr sep
                    else fixemail addr sep) of
                Inl x \<Rightarrow> Inl x
              | Inr m \<Rightarrow> Inr (realname @ '' &lt;'' @ m @ ''&gt;'')))
      else if startswith part ''http:'' then Inr (''<a href="'' @ part @ ''">'' @ part @ ''</a>'')
      else Inr part)\<close>

fun mailtos_loop :: "env \<Rightarrow> string \<Rightarrow> string \<Rightarrow> string list \<Rightarrow> error + string list" where
  "mailtos_loop e k sep [] = Inr []"
| "mailtos_loop e k sep (part # rest) =
     (case mail_part e k sep part of
        Inl x \<Rightarrow> Inl x
      | Inr m \<Rightarrow> (case mailtos_loop e k sep rest of Inl x \<Rightarrow> Inl x | Inr ms \<Rightarrow> Inr (m # ms)))"

fun otherseps_loop :: "string list \<Rightarrow> string \<Rightarrow> error + string" where
  "otherseps_loop [] otherseps = Inr otherseps"
| \<open>otherseps_loop (othersep # rest) otherseps =
     (case py_int othersep of
        None \<Rightarrow> Inl (ValueError othersep)
      | Some n \<Rightarrow>
          otherseps_loop rest
            (otherseps @ ''<a href="sep-'' @ fmt_0d 4 n @ ''.html">'' @ fmt_d n @ ''</a> ''))\<close>

text \<open>\<open>s[a:-2]\<close>.\<close>

definition slice_to_minus2 :: "nat \<Rightarrow> string \<Rightarrow> string" where
  "slice_to_minus2 a s = take (length s - 2 - a) (drop a s)"

definition render_field ::
  "env \<Rightarrow> string \<Rightarrow> string \<Rightarrow> string \<times> string \<Rightarrow> error + string" where
  \<open>render_field e inpath sep kv =
     (case kv of (k, v) \<Rightarrow>
      if lower k \<in> set [''author'', ''bdfl-delegate'', ''discussions-to''] then
        (case mailtos_loop e k sep (re_split_comma False [] v) of
           Inl x \<Rightarrow> Inl x
         | Inr mailtos \<Rightarrow> Inr (py_join '', '' mailtos))
      else if lower k \<in> set [''replaces'', ''superseded-by'', ''requires''] then
        otherseps_loop (re_split_comma_ws False [] v) []
      else if lower k = ''last-modified'' then
        (case (if v \<noteq> [] then Inr v else file_mtime e inpath) of
           Inl x \<Rightarrow> Inl x
         | Inr d \<Rightarrow>
             (let date = (if startswith d ''$Date: '' \<and> endswith d '' $''
                          then slice_to_minus2 6 d else d)
              in if basename inpath = ''sep-0000.txt'' then Inr date
                 else (case py_int sep of
                         None \<Rightarrow> Inr date
                       | Some n \<Rightarrow>
                           Inr (''<a href="'' @ SEPCVSURL n @ ''">'' @ escape date @ ''</a> ''))))
      else if lower k = ''content-type'' then
        Inr (''<a href="'' @ SEPURL 9 @ ''">'' @ escape (if v \<noteq> [] then v else ''text/plain'')
             @ ''</a> '')
      else if lower k = ''version'' then
        Inr (if startswith v ''$Revision: '' \<and> endswith v '' $''
             then escape (slice_to_minus2 11 v) else v)
      else Inr (escape v))\<close>

fun header_rows ::
  "env \<Rightarrow> string \<Rightarrow> string \<Rightarrow> (string \<times> string) list \<Rightarrow> error + string" where
  "header_rows e inpath sep [] = Inr []"
| "header_rows e inpath sep (kv # rest) =
     (case render_field e inpath sep kv of
        Inl x \<Rightarrow> Inl x
      | Inr v \<Rightarrow>
          (case header_rows e inpath sep rest of
             Inl x \<Rightarrow> Inl x
           | Inr out \<Rightarrow>
               Inr (''  <tr><th>'' @ escape (fst kv) @ '':&nbsp;</th><td>'' @ v
                    @ ''</td></tr>\<newline>'' @ out)))"

subsection \<open>\<open>fixfile\<close>: the body\<close>

text \<open>\<open>re.sub(pattern, repl, line, 1)\<close> where the pattern is made of digits and underscores
  and \<open>repl\<close> holds no backslash: the leftmost occurrence of the pattern as a substring is
  replaced.\<close>

fun replace_first :: "string \<Rightarrow> string \<Rightarrow> string \<Rightarrow> string" where
  "replace_first pat repl [] = []"
| "replace_first pat repl (c # cs) =
     (if startswith (c # cs) pat then repl @ drop (length pat) (c # cs)
      else c # replace_first pat repl cs)"

text \<open>
  The text written for a body line that is neither skipped nor a heading.  In
  \<open>sep-0000.txt\<close>, \<open>re.match(r"\s*\d{1,4}", parts[1])\<close> succeeds exactly when the token
  starts with a digit, since a token of \<open>line.split()\<close> has no white space; when
  \<open>int(parts[1])\<close> then returns, the token holds digits and underscores only.
\<close>

definition body_line :: "env \<Rightarrow> string \<Rightarrow> string \<Rightarrow> string \<Rightarrow> error + string" where
  \<open>body_line e inpath sep line =
     (if basename inpath = ''sep-0000.txt'' then
        (let parts = split_ws [] line in
         if 1 < length parts \<and> (case parts ! 1 of [] \<Rightarrow> False | d # _ \<Rightarrow> isdigit d) then
           (case py_int (parts ! 1) of
              None \<Rightarrow> Inl (ValueError (parts ! 1))
            | Some n \<Rightarrow>
                Inr (replace_first (parts ! 1)
                       (''<a href="'' @ SEPURL n @ ''">'' @ parts ! 1 @ ''</a>'') line))
         else if parts \<noteq> [] \<and> CHR ''@'' \<in> set (last parts) then
           (case fixemail (last parts) sep of
              Inl x \<Rightarrow> Inl x
            | Inr url \<Rightarrow> re_sub_first e (last parts) url line)
         else fixpat_sub inpath line)
      else fixpat_sub inpath line)\<close>

definition close_pre :: "bool \<Rightarrow> string" where
  "close_pre need_pre = (if \<not> need_pre then ''</pre>\<newline>'' else [])"

definition open_pre :: "bool \<Rightarrow> string" where
  "open_pre need_pre = (if need_pre then ''<pre>\<newline>'' else [])"

fun body_loop :: "env \<Rightarrow> string \<Rightarrow> string \<Rightarrow> bool \<Rightarrow> string list \<Rightarrow> error + string" where
  "body_loop e inpath sep need_pre [] = Inr (close_pre need_pre)"
| "body_loop e inpath sep need_pre ([] # rest) = Inl IndexError"
| "body_loop e inpath sep need_pre ((c # cs) # rest) =
     (let line = c # cs in
      if c = CHR 0x0C then body_loop e inpath sep need_pre rest
      else if strip line = LOCALVARS then Inr (close_pre need_pre)
      else if \<not> isspace c then
        (case body_loop e inpath sep True rest of
           Inl x \<Rightarrow> Inl x
         | Inr out \<Rightarrow>
             Inr (close_pre need_pre @ ''<h3>'' @ strip line @ ''</h3>\<newline>'' @ out))
      else if strip line = [] \<and> need_pre then body_loop e inpath sep need_pre rest
      else
        (case body_line e inpath sep line of
           Inl x \<Rightarrow> Inl x
         | Inr txt \<Rightarrow>
             (case body_loop e inpath sep False rest of
                Inl x \<Rightarrow> Inl x
              | Inr out \<Rightarrow> Inr (open_pre need_pre @ txt @ out))))"

subsection \<open>\<open>fixfile\<close>\<close>

text \<open>
  \<open>fixfile env r inpath input_lines\<close>: \<open>r\<close> is the value of
  \<open>random.choice(list(range(64)))\<close>.  The result is the text written to \<open>outfile\<close> and the
  text written to \<open>sys.stderr\<close>, or the exception that leaves \<open>fixfile\<close>.
\<close>

definition fixfile :: "env \<Rightarrow> nat \<Rightarrow> string \<Rightarrow> string list \<Rightarrow> error + (string \<times> string)" where
  \<open>fixfile e r inpath input_lines =
     (case parse_header input_lines [] [] [] of
        Inl x \<Rightarrow> Inl x
      | Inr (header, sep, title, body) \<Rightarrow>
          (case header_rows e inpath sep header of
             Inl x \<Rightarrow> Inl x
           | Inr rows \<Rightarrow>
               (case body_loop e inpath sep True body of
                  Inl x \<Rightarrow> Inl x
                | Inr content \<Rightarrow>
                    Inr (DTD @ ''\<newline><html>\<newline>'' @ COMMENT @ ''\<newline><head>\<newline>''
                         @ title_line (doc_title sep title)
                         @ navigation r
                         @ index_link inpath
                         @ fst (source_link e sep)
                         @ ''</td></tr></table>\<newline><div class="header">\<newline><table border="0">\<newline>''
                         @ rows
                         @ ''</table>\<newline></div>\<newline><hr />\<newline><div class="content">\<newline>''
                         @ content
                         @ ''</div>\<newline></body>\<newline></html>\<newline>'',
                         snd (source_link e sep)))))\<close>

text \<open>An environment for closed examples: \<open>parseaddr\<close> as it answers on a bare address
  (no real name), a fixed modification date, no \<open>re.sub\<close> with a pattern from the input,
  and the message of \<open>int\<close> for a text without quotes or backslashes.\<close>

definition example_env :: env where
  "example_env = \<lparr> parseaddr = (\<lambda>part. ([], strip part)),
                   file_mtime = (\<lambda>p. Inr ''01-Jan-2020''),
                   re_sub_first = (\<lambda>pat repl line. Inl (EnvError ''re.sub'')),
                   error_text = (\<lambda>x. case x of
                       ValueError s \<Rightarrow> ''invalid literal for int() with base 10: ''
                                       @ [CHR 0x27] @ s @ [CHR 0x27]
                     | _ \<Rightarrow> []) \<rparr>"

section \<open>sep2rss.py: the feed builder\<close>

text \<open>
  The script reads the files that \<open>glob\<close> found: \<open>seps\<close> is the list of their paths, in the
  order of \<open>glob\<close>, and \<open>fs\<close> gives the lines of the file at a path.  A \<open>datetime\<close> is its six
  fields, year first, compared as Python compares them.
\<close>

type_synonym datetime = "nat \<times> nat \<times> nat \<times> nat \<times> nat \<times> nat"

definition firstline_startingwith :: "string list \<Rightarrow> string \<Rightarrow> string option" where
  "firstline_startingwith lines text =
     (case filter (\<lambda>line. startswith line text) lines of
        [] \<Rightarrow> None
      | line # _ \<Rightarrow> Some (strip (drop (length text) line)))"

text \<open>\<open>\w\<close> in a \<open>str\<close> pattern, for the code points below 256.\<close>

definition isword :: "char \<Rightarrow> bool" where
  "isword c =
     (isalpha_ascii c \<or> isdigit c \<or> c = CHR ''_''
      \<or> c \<in> set [CHR 0xAA, CHR 0xB2, CHR 0xB3, CHR 0xB5, CHR 0xB9, CHR 0xBA, CHR 0xBC, CHR 0xBD,
                   CHR 0xBE]
      \<or> (192 \<le> (of_char c :: nat) \<and> c \<noteq> CHR 0xD7 \<and> c \<noteq> CHR 0xF7))"

text \<open>
  \<open>re.search(r"(\d+-\w+-\d{4})", s)\<close>: the match is tried at each position from the left.
  At a position, \<open>\d+\<close> and \<open>\w+\<close> take all the characters of their class, since each is
  followed by a \<open>-\<close>, which is in neither class.
\<close>

definition match_date_at :: "string \<Rightarrow> string option" where
  "match_date_at s =
     (let ds = takeWhile isdigit s in
      if ds = [] then None
      else (case drop (length ds) s of
              [] \<Rightarrow> None
            | c1 # r2 \<Rightarrow>
                (let ws = takeWhile isword r2 in
                 if c1 \<noteq> CHR ''-'' \<or> ws = [] then None
                 else (case drop (length ws) r2 of
                         [] \<Rightarrow> None
                       | c2 # r4 \<Rightarrow>
                           if c2 = CHR ''-'' \<and> length (take 4 r4) = 4 \<and> list_all isdigit (take 4 r4)
                           then Some (ds @ ''-'' @ ws @ ''-'' @ take 4 r4)
                           else None))))"

fun search_date :: "string \<Rightarrow> string option" where
  "search_date [] = None"
| "search_date (c # cs) =
     (case match_date_at (c # cs) of Some d \<Rightarrow> Some d | None \<Rightarrow> search_date cs)"

text \<open>
  \<open>time.strptime(s, "%d-%b-%Y")\<close> and \<open>time.strptime(s, "%d-%B-%Y")\<close> in the C locale, which
  differ in the month names.  The text must be a day (\<open>3[0-1]|[1-2]\d|0[1-9]|[1-9]| [1-9]\<close>),
  a month name in any letter case and four digits, with \<open>-\<close> in between and nothing after;
  the date must exist.  \<open>None\<close> is the ValueError.
\<close>

definition month_abbreviations :: "string list" where
  "month_abbreviations = [''jan'', ''feb'', ''mar'', ''apr'', ''may'', ''jun'',
                          ''jul'', ''aug'', ''sep'', ''oct'', ''nov'', ''dec'']"

definition month_names :: "string list" where
  "month_names = [''january'', ''february'', ''march'', ''april'', ''may'', ''june'',
                  ''july'', ''august'', ''september'', ''october'', ''november'', ''december'']"

fun index_of :: "string \<Rightarrow> string list \<Rightarrow> nat option" where
  "index_of x [] = None"
| "index_of x (y # ys) = (if x = y then Some 0 else map_option Suc (index_of x ys))"

definition day_of :: "string \<Rightarrow> nat option" where
  "day_of d =
     (case d of
        [a] \<Rightarrow> if isdigit a \<and> a \<noteq> CHR ''0'' then Some (digit_val a) else None
      | [a, b] \<Rightarrow>
          if a = CHR ''3'' \<and> (b = CHR ''0'' \<or> b = CHR ''1'') then Some (30 + digit_val b)
          else if (a = CHR ''1'' \<or> a = CHR ''2'') \<and> isdigit b then Some (10 * digit_val a + digit_val b)
          else if (a = CHR ''0'' \<or> a = CHR '' '') \<and> isdigit b \<and> b \<noteq> CHR ''0'' then Some (digit_val b)
          else None
      | _ \<Rightarrow> None)"

definition year_of :: "string \<Rightarrow> nat option" where
  "year_of y = (if length y = 4 \<and> list_all isdigit y then int_digits 0 y else None)"

definition is_leap :: "nat \<Rightarrow> bool" where
  "is_leap y = (y mod 4 = 0 \<and> (y mod 100 \<noteq> 0 \<or> y mod 400 = 0))"

definition days_in_month :: "nat \<Rightarrow> nat \<Rightarrow> nat" where
  "days_in_month y m =
     (if m = 2 then (if is_leap y then 29 else 28)
      else if m \<in> set [4, 6, 9, 11] then 30 else 31)"

definition strptime :: "string list \<Rightarrow> string \<Rightarrow> datetime option" where
  "strptime names s =
     (case split_char (CHR ''-'') [] s of
        [d, m, y] \<Rightarrow>
          (case day_of d of
             None \<Rightarrow> None
           | Some dd \<Rightarrow>
               (case index_of (lower m) names of
                  None \<Rightarrow> None
                | Some i \<Rightarrow>
                    (case year_of y of
                       None \<Rightarrow> None
                     | Some yy \<Rightarrow>
                         if 1 \<le> yy \<and> dd \<le> days_in_month yy (Suc i)
                         then Some (yy, Suc i, dd, 0, 0, 0) else None)))
      | _ \<Rightarrow> None)"

text \<open>\<open>sep_creation_dt\<close>: \<open>epoch\<close> is \<open>datetime.datetime(*time.localtime(0)[:6])\<close>, which
  depends on the time zone.  Without a \<open>Created:\<close> line, \<open>re.search\<close> is called on \<open>None\<close> and
  raises TypeError.\<close>

definition sep_creation_dt :: "datetime \<Rightarrow> string list \<Rightarrow> error + datetime" where
  "sep_creation_dt epoch lines =
     (case firstline_startingwith lines ''Created:'' of
        None \<Rightarrow> Inl TypeError
      | Some created_str \<Rightarrow>
          (case search_date created_str of
             None \<Rightarrow> Inr epoch
           | Some d \<Rightarrow>
               (case strptime month_abbreviations d of
                  Some t \<Rightarrow> Inr t
                | None \<Rightarrow>
                    (case strptime month_names d of
                       Some t \<Rightarrow> Inr t
                     | None \<Rightarrow> Inl (ValueError d)))))"

fun seps_with_dt ::
  "datetime \<Rightarrow> (string \<Rightarrow> string list) \<Rightarrow> string list \<Rightarrow> error + (datetime \<times> string) list" where
  "seps_with_dt epoch fs [] = Inr []"
| "seps_with_dt epoch fs (full_path # rest) =
     (case sep_creation_dt epoch (fs full_path) of
        Inl x \<Rightarrow> Inl x
      | Inr dt \<Rightarrow>
          (case seps_with_dt epoch fs rest of
             Inl x \<Rightarrow> Inl x
           | Inr pairs \<Rightarrow> Inr ((dt, full_path) # pairs)))"

text \<open>\<open>list.sort(reverse=True)\<close> on pairs of a \<open>datetime\<close> and a path: greatest first, in
  the order of tuples.  Pairs that compare equal are the same pair.\<close>

definition sort_reverse :: "(datetime \<times> string) list \<Rightarrow> (datetime \<times> string) list" where
  "sort_reverse pairs = rev (sort pairs)"

record rss_item =
  rss_title :: string
  rss_link :: string
  rss_description :: string
  rss_guid :: string
  rss_pubDate :: datetime

text \<open>\<open>"%s" % x\<close> for a value that is a \<open>str\<close> or \<open>None\<close>.\<close>

definition format_s :: "string option \<Rightarrow> string" where
  "format_s x = (case x of None \<Rightarrow> ''None'' | Some s \<Rightarrow> s)"

text \<open>\<open>full_path.split("-")[-1].split(".")[0]\<close>: what follows the last \<open>-\<close>, up to its first
  \<open>.\<close>.\<close>

definition number_text :: "string \<Rightarrow> string" where
  "number_text full_path =
     takeWhile (\<lambda>c. c \<noteq> CHR ''.'') (rev (takeWhile (\<lambda>c. c \<noteq> CHR ''-'') (rev full_path)))"

definition make_item :: "(string \<Rightarrow> string list) \<Rightarrow> int \<Rightarrow> datetime \<Rightarrow> string \<Rightarrow> rss_item" where
  "make_item fs n dt full_path =
     \<lparr> rss_title = ''SEP '' @ fmt_d n @ '': ''
                     @ format_s (firstline_startingwith (fs full_path) ''Title:''),
       rss_link = ''http://www.python.org/dev/seps/sep-'' @ fmt_prec_d 4 n,
       rss_description = ''Author: '' @ format_s (firstline_startingwith (fs full_path) ''Author:''),
       rss_guid = ''http://www.python.org/dev/seps/sep-'' @ fmt_prec_d 4 n,
       rss_pubDate = dt \<rparr>"

text \<open>
  The loop over the ten newest documents.  \<open>n\<close> is the variable \<open>n\<close> of the script before
  the iteration: \<open>None\<close> while it is unbound.  The \<open>except ValueError: pass\<close> leaves it as it
  is; reading an unbound \<open>n\<close> raises NameError.
\<close>

fun items_loop ::
  "(string \<Rightarrow> string list) \<Rightarrow> int option \<Rightarrow> (datetime \<times> string) list \<Rightarrow> error + rss_item list" where
  "items_loop fs n [] = Inr []"
| "items_loop fs n ((dt, full_path) # rest) =
     (case (case py_int (number_text full_path) of Some k \<Rightarrow> Some k | None \<Rightarrow> n) of
        None \<Rightarrow> Inl NameError
      | Some k \<Rightarrow>
          (case items_loop fs (Some k) rest of
             Inl x \<Rightarrow> Inl x
           | Inr items \<Rightarrow> Inr (make_item fs k dt full_path # items)))"

definition feed_items ::
  "datetime \<Rightarrow> (string \<Rightarrow> string list) \<Rightarrow> string list \<Rightarrow> error + rss_item list" where
  "feed_items epoch fs seps =
     (case seps_with_dt epoch fs seps of
        Inl x \<Rightarrow> Inl x
      | Inr pairs \<Rightarrow> items_loop fs None (take 10 (sort_reverse pairs)))"

text \<open>Files for closed examples.\<close>

definition example_files :: "string \<Rightarrow> string list" where
  "example_files p =
     (if p = ''sep-0001.txt'' then [''SEP: 1\<newline>'', ''Title: One\<newline>'', ''Author: A\<newline>'', ''Created: 01-Jan-2020\<newline>'']
      else if p = ''sep-0002.txt'' then [''SEP: 2\<newline>'', ''Title: Two\<newline>'', ''Author: B\<newline>'', ''Created: 02-Jan-2020\<newline>'']
      else if p = ''sep-0003.txt'' then [''SEP: 3\<newline>'', ''Title: Three\<newline>'', ''Author: C\<newline>'', ''Created:\<newline>'']
      else if p = ''sep-0004.txt'' then [''SEP: 4\<newline>'', ''Title: Four\<newline>'', ''Author: D\<newline>'', ''Created: 01-Jan-1960\<newline>'']
      else if p = ''sep-draft.txt'' then [''Title: Draft\<newline>'', ''Author: E\<newline>'', ''Created: 03-January-2019 (revised)\<newline>'']
      else [])"

section \<open>Notions used in the statements\<close>

text \<open>The link that the \<open>replaces\<close>, \<open>superseded-by\<close> and \<open>requires\<close> fields show for the
  document number \<open>n\<close>.\<close>

definition other_sep_link :: "int \<Rightarrow> string" where
  \<open>other_sep_link n = ''<a href="sep-'' @ fmt_0d 4 n @ ''.html">'' @ fmt_d n @ ''</a> ''\<close>




text \<open>
  The pieces into which \<open>fixpat.sub\<close> cuts a line (what \<open>fixpat.finditer\<close> yields, with
  the characters that no alternative matches in between): a match, or a copied character.
\<close>

function fixpat_scan :: "string \<Rightarrow> (char + fixmatch) list" where
  "fixpat_scan [] = []"
| "fixpat_scan (c # cs) =
     (case fixpat_match (c # cs) of
        None \<Rightarrow> Inl c # fixpat_scan cs
      | Some m \<Rightarrow> Inr m # fixpat_scan (drop (length (group0 m)) (c # cs)))"
  by pat_completeness auto
termination
proof (relation "measure length")
  show "wf (measure length)"
    by simp
next
  fix c :: char and cs :: string
  show "(cs, c # cs) \<in> measure length"
    by simp
next
  fix c :: char and cs :: string and m :: fixmatch
  assume "fixpat_match (c # cs) = Some m"
  then have "0 < length (group0 m)"
    using fixpat_match_nonempty by blast
  then show "(drop (length (group0 m)) (c # cs), c # cs) \<in> measure length"
    by simp
qed

declare fixpat_scan.simps [simp del]

text \<open>The text of a piece, the text of a list of pieces, what replaces a piece in the
  output, and the pieces that are URL matches.\<close>

definition piece_text :: "char + fixmatch \<Rightarrow> string" where
  "piece_text p = (case p of Inl c \<Rightarrow> [c] | Inr m \<Rightarrow> group0 m)"

definition pieces_text :: "(char + fixmatch) list \<Rightarrow> string" where
  "pieces_text ps = concat (map piece_text ps)"

definition replaces_piece :: "string \<Rightarrow> char + fixmatch \<Rightarrow> string \<Rightarrow> bool" where
  "replaces_piece current p out =
     (case p of Inl c \<Rightarrow> out = [c] | Inr m \<Rightarrow> fixanchor current m = Inr out)"

definition is_url_piece :: "char + fixmatch \<Rightarrow> bool" where
  "is_url_piece p = (case p of Inl c \<Rightarrow> False | Inr m \<Rightarrow> url_scheme (group0 m) \<noteq> [])"





section \<open>Properties of the pattern and of the substitution\<close>

subsection \<open>Matches are prefixes\<close>

lemma startswith_append [simp]: "startswith (p @ s) p"
  by (simp add: startswith_def)

lemma startswithD: "startswith s p \<Longrightarrow> s = p @ drop (length p) s"
  by (metis append_take_drop_id startswith_def)

lemma startswith_shorter: "startswith s (p @ q) \<Longrightarrow> startswith s p"
  by (metis append_eq_conv_conj startswith_def take_take min.cobounded1 length_append le_add1 min_def)

lemma url_scheme_cases:
  "url_scheme s = [] \<or> (url_scheme s \<in> {''https:'', ''http:'', ''ftp:''} \<and> startswith s (url_scheme s))"
  by (simp add: url_scheme_def)

lemma match_url_shape:
  assumes "match_url s = Some u"
  shows "url_scheme s \<noteq> []" "startswith s (url_scheme s)"
    "u = url_scheme s @ takeWhile urlchar (drop (length (url_scheme s)) s)"
    "takeWhile urlchar (drop (length (url_scheme s)) s) \<noteq> []"
  using assms url_scheme_cases [of s]
  by (auto simp: match_url_def Let_def split: if_splits)

lemma urlchar_scheme:
  assumes "url_scheme s \<noteq> []"
  shows "\<forall>c \<in> set (url_scheme s). urlchar c"
proof -
  have "\<forall>c \<in> set ''https:''. urlchar c" "\<forall>c \<in> set ''http:''. urlchar c"
    "\<forall>c \<in> set ''ftp:''. urlchar c"
    by code_simp+
  moreover have "url_scheme s = ''https:'' \<or> url_scheme s = ''http:'' \<or> url_scheme s = ''ftp:''"
    using assms url_scheme_cases [of s] by blast
  ultimately show ?thesis
    by metis
qed

lemma match_url_takeWhile:
  assumes "match_url s = Some u"
  shows "u = takeWhile urlchar s"
proof -
  note sh = match_url_shape [OF assms]
  have s: "s = url_scheme s @ drop (length (url_scheme s)) s"
    using sh(2) by (rule startswithD)
  have "takeWhile urlchar s
      = takeWhile urlchar (url_scheme s @ drop (length (url_scheme s)) s)"
    using s by simp
  also have "\<dots> = url_scheme s @ takeWhile urlchar (drop (length (url_scheme s)) s)"
    using urlchar_scheme [OF sh(1)] by (simp add: takeWhile_append2)
  finally show ?thesis
    using sh(3) by simp
qed

lemma match_url_prefix: "match_url s = Some u \<Longrightarrow> take (length u) s = u"
  by (metis match_url_takeWhile takeWhile_eq_take)

lemma match_url_nonempty: "match_url s = Some u \<Longrightarrow> u \<noteq> []"
  using match_url_shape(1,3) by fastforce

lemma match_url_start:
  assumes "match_url s = Some u"
  shows "(\<exists>r. s = CHR ''h'' # CHR ''t'' # CHR ''t'' # r) \<or> (\<exists>r. s = CHR ''f'' # CHR ''t'' # CHR ''p'' # r)"
proof -
  from match_url_shape [OF assms] url_scheme_cases [of s]
  have "startswith s (''htt'' @ ''ps:'') \<or> startswith s (''htt'' @ ''p:'')
      \<or> startswith s (''ftp'' @ '':'')"
    by auto
  then have "startswith s ''htt'' \<or> startswith s ''ftp''"
    using startswith_shorter by blast
  then have "s = ''htt'' @ drop (length ''htt'') s \<or> s = ''ftp'' @ drop (length ''ftp'') s"
    using startswithD by blast
  then show ?thesis
    by (metis append_Cons append_Nil)
qed

lemma takeWhile_drop_inside:
  "i \<le> length (takeWhile P s) \<Longrightarrow> takeWhile P (drop i s) = drop i (takeWhile P s)"
proof (induction s arbitrary: i)
  case Nil
  then show ?case by simp
next
  case (Cons a s)
  then show ?case
    by (cases i) (auto split: if_splits)
qed

lemma url_inside_url_same_end:
  assumes "match_url s = Some w" and "i < length w" and "match_url (drop i s) = Some u"
  shows "i + length u = length w"
proof -
  have w: "w = takeWhile urlchar s"
    using assms(1) by (rule match_url_takeWhile)
  have "u = takeWhile urlchar (drop i s)"
    using assms(3) by (rule match_url_takeWhile)
  also have "\<dots> = drop i (takeWhile urlchar s)"
    using assms(2) w by (simp add: takeWhile_drop_inside)
  finally show ?thesis
    using assms(2) w by simp
qed

subsection \<open>Digits\<close>

lemma isdigit_not_space: "isdigit c \<Longrightarrow> \<not> isspace_int c"
  by (auto simp: isdigit_def isspace_int_def)

lemma strip_int_no_space:
  assumes "\<forall>c \<in> set s. \<not> isspace_int c"
  shows "strip_int s = s"
proof -
  have none: "dropWhile isspace_int xs = xs" if "\<forall>c \<in> set xs. \<not> isspace_int c" for xs
    using that by (cases xs) simp_all
  have "dropWhile isspace_int s = s"
    using assms by (rule none)
  moreover have "dropWhile isspace_int (rev s) = rev s"
    using assms by (intro none) simp
  ultimately show ?thesis
    by (simp add: strip_int_def)
qed

lemma int_digits_total:
  "\<forall>c \<in> set ds. isdigit c \<Longrightarrow> \<exists>n. int_digits acc ds = Some n"
  by (induction acc ds rule: int_digits.induct) auto

lemma py_int_digits:
  assumes "ds \<noteq> []" and "\<forall>c \<in> set ds. isdigit c"
  shows "\<exists>n. py_int ds = Some n \<and> 0 \<le> n"
proof -
  obtain d rest where ds: "ds = d # rest"
    using assms(1) by (cases ds) auto
  have d: "isdigit d" and rest: "\<forall>c \<in> set rest. isdigit c"
    using assms(2) ds by auto
  have sign: "d \<noteq> CHR ''-''" "d \<noteq> CHR ''+''"
    using d by (auto simp: isdigit_def)
  have "strip_int ds = ds"
    using assms(2) isdigit_not_space by (intro strip_int_no_space) blast
  then show ?thesis
    using ds d sign int_digits_total [OF rest, of "digit_val d"]
    by (auto simp: py_int_def)
qed

subsection \<open>The other alternatives\<close>

lemma drop_inside_prefix: "i < length p \<Longrightarrow> drop i (p @ q) = drop i p @ q"
  by simp

lemma drop_past_prefix: "drop (length p + j) (p @ q) = drop j q"
  by simp

lemma take_prefix: "s = t @ r \<Longrightarrow> take (length t) s = t"
  by simp

lemma match_rfc_shape:
  assumes "match_rfc s = Some (t, d)"
  shows "d \<noteq> []" "\<forall>c \<in> set d. isdigit c" "take (length t) s = t" "startswith t ''RFC''"
    "\<forall>c \<in> set (tl t). c \<noteq> CHR ''h'' \<and> c \<noteq> CHR ''f''"
proof -
  from assms have rfc: "startswith s ''RFC''"
    by (simp add: match_rfc_def split: if_splits)
  define opt where "opt = (case drop 3 s of [] \<Rightarrow> []
      | c # _ \<Rightarrow> if c = CHR ''-'' \<or> c = CHR '' '' then [c] else [])"
  define ds where "ds = takeWhile isdigit (drop (3 + length opt) s)"
  have "match_rfc s = (if ds = [] then None else Some (''RFC'' @ opt @ ds, ds))"
    unfolding match_rfc_def Let_def opt_def ds_def using rfc by (simp only: if_True)
  with assms have ds: "ds \<noteq> []" and t: "t = ''RFC'' @ opt @ ds" and d: "d = ds"
    by (auto split: if_splits)
  have s3: "s = ''RFC'' @ drop 3 s"
    using startswithD [OF rfc] by (simp add: eval_nat_numeral)
  have "drop 3 s = opt @ drop (length opt) (drop 3 s)"
    by (cases "drop 3 s") (simp_all add: opt_def)
  with s3 have s: "s = ''RFC'' @ opt @ drop (3 + length opt) s"
    by (metis add.commute drop_drop)
  show "d \<noteq> []"
    using ds d by simp
  show "\<forall>c \<in> set d. isdigit c"
    unfolding d ds_def by (auto dest: set_takeWhileD)
  have "drop (3 + length opt) s = ds @ dropWhile isdigit (drop (3 + length opt) s)"
    unfolding ds_def by simp
  with s have "s = t @ dropWhile isdigit (drop (3 + length opt) s)"
    unfolding t by (metis append.assoc)
  then show "take (length t) s = t"
    by (rule take_prefix)
  show "startswith t ''RFC''"
    unfolding t by (simp add: startswith_def)
  have "\<forall>c \<in> set opt. c \<noteq> CHR ''h'' \<and> c \<noteq> CHR ''f''"
    by (cases "drop 3 s") (auto simp: opt_def)
  moreover have "\<forall>c \<in> set ds. c \<noteq> CHR ''h'' \<and> c \<noteq> CHR ''f''"
    unfolding ds_def by (auto dest!: set_takeWhileD simp: isdigit_def)
  ultimately show "\<forall>c \<in> set (tl t). c \<noteq> CHR ''h'' \<and> c \<noteq> CHR ''f''"
    unfolding t by auto
qed

lemma match_sep_shape:
  assumes "match_sep s = Some (t, d)"
  shows "d \<noteq> []" "\<forall>c \<in> set d. isdigit c" "take (length t) s = t" "startswith t ''SEP''"
    "\<forall>c \<in> set (tl t). c \<noteq> CHR ''h'' \<and> c \<noteq> CHR ''f''"
proof -
  from assms have sep: "startswith s ''SEP''"
    by (simp add: match_sep_def split: if_splits)
  define ws where "ws = takeWhile isspace (drop 3 s)"
  define ds where "ds = takeWhile isdigit (drop (3 + length ws) s)"
  have "match_sep s = (if ws = [] \<or> ds = [] then None else Some (''SEP'' @ ws @ ds, ds))"
    unfolding match_sep_def Let_def ws_def ds_def using sep by (simp only: if_True)
  with assms have ds: "ds \<noteq> []" and t: "t = ''SEP'' @ ws @ ds" and d: "d = ds"
    by (auto split: if_splits)
  have s3: "s = ''SEP'' @ drop 3 s"
    using startswithD [OF sep] by (simp add: eval_nat_numeral)
  have "drop 3 s = ws @ drop (length ws) (drop 3 s)"
    unfolding ws_def by (metis append_take_drop_id takeWhile_eq_take)
  with s3 have s: "s = ''SEP'' @ ws @ drop (3 + length ws) s"
    by (metis add.commute drop_drop)
  show "d \<noteq> []"
    using ds d by simp
  show "\<forall>c \<in> set d. isdigit c"
    unfolding d ds_def by (auto dest: set_takeWhileD)
  have "drop (3 + length ws) s = ds @ dropWhile isdigit (drop (3 + length ws) s)"
    unfolding ds_def by simp
  with s have "s = t @ dropWhile isdigit (drop (3 + length ws) s)"
    unfolding t by (metis append.assoc)
  then show "take (length t) s = t"
    by (rule take_prefix)
  show "startswith t ''SEP''"
    unfolding t by (simp add: startswith_def)
  have "\<forall>c \<in> set ws. c \<noteq> CHR ''h'' \<and> c \<noteq> CHR ''f''"
    unfolding ws_def by (auto dest!: set_takeWhileD simp: isspace_def)
  moreover have "\<forall>c \<in> set ds. c \<noteq> CHR ''h'' \<and> c \<noteq> CHR ''f''"
    unfolding ds_def by (auto dest!: set_takeWhileD simp: isdigit_def)
  ultimately show "\<forall>c \<in> set (tl t). c \<noteq> CHR ''h'' \<and> c \<noteq> CHR ''f''"
    unfolding t by auto
qed

lemma match_sepfile_shape:
  assumes "match_sepfile s = Some t"
  shows "take (length t) s = t" "startswith t ''sep-''"
    "0 < i \<Longrightarrow> i < length t \<Longrightarrow> match_url (drop i t @ r) = None"
proof -
  from assms have sep: "startswith s ''sep-''"
    by (simp add: match_sepfile_def split: if_splits)
  define ds where "ds = takeWhile isdigit (drop 4 s)"
  define rest where "rest = drop (4 + length ds) s"
  define sfx where "sfx = (if (case rest of [] \<Rightarrow> False
      | x # y \<Rightarrow> x \<noteq> CHR 0x0A \<and> (startswith y ''txt'' \<or> startswith y ''rst''))
      then take 4 rest else [])"
  have "match_sepfile s = (if ds = [] then None else Some (''sep-'' @ ds @ sfx))"
    unfolding match_sepfile_def Let_def sfx_def rest_def ds_def using sep
    by (simp only: if_True append_Nil2 if_distrib [of Some] if_distrib [of "\<lambda>x. ''sep-'' @ takeWhile isdigit (drop 4 s) @ x"]
        cong: if_cong)
  with assms have t: "t = ''sep-'' @ ds @ sfx"
    by (auto split: if_splits)
  have s4: "s = ''sep-'' @ drop 4 s"
    using startswithD [OF sep] by (simp add: eval_nat_numeral)
  have "drop 4 s = ds @ dropWhile isdigit (drop 4 s)"
    unfolding ds_def by simp
  moreover have "rest = dropWhile isdigit (drop 4 s)"
    unfolding rest_def ds_def
    by (metis add.commute drop_drop dropWhile_eq_drop)
  ultimately have s: "s = ''sep-'' @ ds @ rest"
    using s4 by metis
  have "rest = sfx @ drop (length sfx) rest"
    by (simp add: sfx_def min_def)
  with s have "s = t @ drop (length sfx) rest"
    unfolding t by (metis append.assoc)
  then show "take (length t) s = t"
    by (rule take_prefix)
  show "startswith t ''sep-''"
    unfolding t by (simp add: startswith_def)
  have sfx_cases: "sfx = [] \<or> (\<exists>x. sfx = x # ''txt'') \<or> (\<exists>x. sfx = x # ''rst'')"
  proof (cases rest)
    case Nil
    then show ?thesis by (simp add: sfx_def)
  next
    case (Cons x y)
    have "startswith y ''txt'' \<Longrightarrow> take 3 y = ''txt''" "startswith y ''rst'' \<Longrightarrow> take 3 y = ''rst''"
      by (simp_all add: startswith_def eval_nat_numeral)
    then show ?thesis
      using Cons by (auto simp: sfx_def eval_nat_numeral)
  qed
  have digits: "\<forall>c \<in> set ds. isdigit c"
    unfolding ds_def by (auto dest: set_takeWhileD)
  show "match_url (drop i t @ r) = None" if "0 < i" "i < length t"
  proof (rule ccontr)
    assume "match_url (drop i t @ r) \<noteq> None"
    then obtain u where "match_url (drop i t @ r) = Some u"
      by blast
    from match_url_start [OF this]
    have start: "(\<exists>r'. drop i t @ r = CHR ''h'' # CHR ''t'' # CHR ''t'' # r')
        \<or> (\<exists>r'. drop i t @ r = CHR ''f'' # CHR ''t'' # CHR ''p'' # r')" .
    show False
    proof (cases "i < 4 + length ds")
      case True
      then have "drop i ((''sep-'' @ ds) @ sfx) = drop i (''sep-'' @ ds) @ sfx"
        by (intro drop_inside_prefix) simp
      then have "drop i t = drop i (''sep-'' @ ds) @ sfx"
        by (simp add: t)
      moreover have "drop i (''sep-'' @ ds) \<noteq> []"
        using True by simp
      moreover have "\<forall>c \<in> set (drop i (''sep-'' @ ds)). c \<noteq> CHR ''h'' \<and> c \<noteq> CHR ''f''"
      proof
        fix c assume "c \<in> set (drop i (''sep-'' @ ds))"
        then have "c \<in> set (tl (''sep-'' @ ds))"
          using \<open>0 < i\<close> by (metis drop_Suc in_set_dropD Suc_pred')
        then have "c \<in> set ''ep-'' \<or> isdigit c"
          using digits by auto
        then show "c \<noteq> CHR ''h'' \<and> c \<noteq> CHR ''f''"
          by (auto simp: isdigit_def)
      qed
      ultimately obtain c cs where "drop i t @ r = c # cs" "c \<noteq> CHR ''h''" "c \<noteq> CHR ''f''"
        by (cases "drop i (''sep-'' @ ds)") auto
      with start show False
        by auto
    next
      case False
      then obtain j where j: "i = 4 + length ds + j"
        using le_Suc_ex not_less by blast
      have "drop (length (''sep-'' @ ds) + j) ((''sep-'' @ ds) @ sfx) = drop j sfx"
        by (rule drop_past_prefix)
      with j have d: "drop i t = drop j sfx"
        by (simp add: t eval_nat_numeral)
      from that j t have "j < length sfx"
        by simp
      with sfx_cases obtain x w where w: "sfx = x # w" "w = ''txt'' \<or> w = ''rst''"
        by auto
      from \<open>j < length sfx\<close> w have "j = 0 \<or> j = 1 \<or> j = 2 \<or> j = 3"
        by auto
      with start d w show False
        by (auto simp: eval_nat_numeral)
    qed
  qed
qed

subsection \<open>What \<open>fixanchor\<close> returns for each alternative\<close>

lemma match_url_scheme: "match_url s = Some u \<Longrightarrow> url_scheme u \<noteq> []"
proof -
  assume m: "match_url s = Some u"
  from match_url_shape [OF m] url_scheme_cases [of s]
  obtain r where "u = ''https:'' @ r \<or> u = ''http:'' @ r \<or> u = ''ftp:'' @ r"
    by auto
  then show ?thesis
    by (auto simp: url_scheme_def startswith_def)
qed

lemma url_scheme_startswith:
  "url_scheme t \<noteq> [] \<longleftrightarrow>
     startswith t ''http:'' \<or> startswith t ''https:'' \<or> startswith t ''ftp:''"
  by (auto simp: url_scheme_def)

lemma url_scheme_first:
  "url_scheme t \<noteq> [] \<Longrightarrow> \<exists>r. t = CHR ''h'' # r \<or> t = CHR ''f'' # r"
  by (cases t) (auto simp: url_scheme_def startswith_def split: if_splits)

lemma strip_trailing_punctuation_nonempty:
  assumes "url_scheme t \<noteq> []"
  shows "strip_trailing_punctuation t \<noteq> []"
proof -
  from url_scheme_first [OF assms] obtain c r where t: "t = c # r" and c: "c = CHR ''h'' \<or> c = CHR ''f''"
    by auto
  have "c \<notin> set url_punctuation"
    using c by (auto simp: url_punctuation_def)
  then have "dropWhile (\<lambda>c. c \<in> set url_punctuation) (rev r @ [c]) \<noteq> []"
    by (simp add: dropWhile_append)
  then show ?thesis
    by (simp add: strip_trailing_punctuation_def t)
qed

lemma fixanchor_url:
  assumes "match_url s = Some u"
  shows \<open>fixanchor current (Match u None None)
    = Inr (''<a href="'' @ escape (strip_trailing_punctuation u) @ ''">'' @ escape u @ ''</a>'')\<close>
proof -
  have sch: "url_scheme u \<noteq> []"
    using assms by (rule match_url_scheme)
  then have "startswith u ''http:'' \<or> startswith u ''https:'' \<or> startswith u ''ftp:''"
    by (simp add: url_scheme_startswith)
  then show ?thesis
    using strip_trailing_punctuation_nonempty [OF sch]
    by (simp add: fixanchor_def anchor_def)
qed

lemma not_url_text: "\<And>r. url_scheme (CHR ''s'' # r) = []" "\<And>r. url_scheme (CHR ''R'' # r) = []"
  "\<And>r. url_scheme (CHR ''S'' # r) = []" "\<And>c. url_scheme [c] = []"
  by (simp_all add: url_scheme_def startswith_def)

lemma fixanchor_sepfile:
  assumes "match_sepfile s = Some t"
  shows "fixanchor current (Match t None None)
    = Inr (if t \<noteq> current then anchor (Some (fst (splitext t) @ ''.html'')) t else escape t)"
proof -
  from match_sepfile_shape(2) [OF assms] obtain r where t: "t = CHR ''s'' # r"
    by (cases t) (auto simp: startswith_def)
  have "url_scheme t = []"
    unfolding t by (rule not_url_text)
  then have no_url: "\<not> (startswith t ''http:'' \<or> startswith t ''https:'' \<or> startswith t ''ftp:'')"
    using url_scheme_startswith by blast
  have no_ref: "\<not> startswith t ''SEP''" "\<not> startswith t ''RFC''"
    unfolding t by (simp_all add: startswith_def)
  have "fixanchor c (Match t None None)
      = Inr (if t \<noteq> c then anchor (Some (fst (splitext t) @ ''.html'')) t else anchor None t)" for c
    using no_url no_ref match_sepfile_shape(2) [OF assms]
    by (auto simp: fixanchor_def)
  then show ?thesis
    by (simp add: anchor_def)
qed

lemma fixanchor_rfc:
  assumes "match_rfc s = Some (t, d)"
  shows "\<exists>n. py_int d = Some n \<and>
    fixanchor current (Match t (Some d) None) = Inr (anchor (Some (RFCURL n)) t)"
proof -
  note sh = match_rfc_shape [OF assms]
  from sh(4) obtain r where t: "t = CHR ''R'' # r"
    by (cases t) (auto simp: startswith_def)
  have "url_scheme t = []"
    unfolding t by (rule not_url_text)
  then have no_url: "\<not> (startswith t ''http:'' \<or> startswith t ''https:'' \<or> startswith t ''ftp:'')"
    using url_scheme_startswith by blast
  have no_ref: "\<not> startswith t ''SEP''" "\<not> startswith t ''sep-''"
    unfolding t by (simp_all add: startswith_def)
  from py_int_digits [OF sh(1,2)] obtain n where "py_int d = Some n"
    by blast
  then show ?thesis
    using no_url no_ref sh(4) by (simp add: fixanchor_def)
qed

lemma fixanchor_sep:
  assumes "match_sep s = Some (t, d)"
  shows "\<exists>n. py_int d = Some n \<and>
    fixanchor current (Match t None (Some d)) = Inr (anchor (Some (SEPURL n)) t)"
proof -
  note sh = match_sep_shape [OF assms]
  from sh(4) obtain r where t: "t = CHR ''S'' # r"
    by (cases t) (auto simp: startswith_def)
  have "url_scheme t = []"
    unfolding t by (rule not_url_text)
  then have no_url: "\<not> (startswith t ''http:'' \<or> startswith t ''https:'' \<or> startswith t ''ftp:'')"
    using url_scheme_startswith by blast
  have no_ref: "\<not> startswith t ''sep-''"
    unfolding t by (simp_all add: startswith_def)
  from py_int_digits [OF sh(1,2)] obtain n where "py_int d = Some n"
    by blast
  then show ?thesis
    using no_url no_ref sh(4) by (simp add: fixanchor_def)
qed

lemma fixanchor_dot: "fixanchor current (Match [c] None None) = Inr (escape [c])"
proof -
  have "url_scheme [c] = []"
    by (rule not_url_text)
  then have "\<not> (startswith [c] ''http:'' \<or> startswith [c] ''https:'' \<or> startswith [c] ''ftp:'')"
    using url_scheme_startswith by blast
  moreover have "\<not> startswith [c] ''sep-''" "\<not> startswith [c] ''SEP''" "\<not> startswith [c] ''RFC''"
    by (simp_all add: startswith_def)
  ultimately show ?thesis
    by (simp add: fixanchor_def anchor_def)
qed

lemma fixpat_match_disj:
  "(\<exists>u. match_url s = Some u \<and> fixpat_match s = Some (Match u None None))
 \<or> (\<exists>t. match_url s = None \<and> match_sepfile s = Some t
        \<and> fixpat_match s = Some (Match t None None))
 \<or> (\<exists>t d. match_url s = None \<and> match_sepfile s = None \<and> match_rfc s = Some (t, d)
        \<and> fixpat_match s = Some (Match t (Some d) None))
 \<or> (\<exists>t d. match_url s = None \<and> match_sepfile s = None \<and> match_rfc s = None
        \<and> match_sep s = Some (t, d) \<and> fixpat_match s = Some (Match t None (Some d)))
 \<or> (\<exists>c r. match_url s = None \<and> match_sepfile s = None \<and> match_rfc s = None
        \<and> match_sep s = None \<and> s = c # r \<and> c \<noteq> CHR 0x0A
        \<and> fixpat_match s = Some (Match [c] None None))
 \<or> (match_url s = None \<and> fixpat_match s = None)"
  by (auto simp: fixpat_match_def match_dot_def split: option.splits list.splits if_splits)

lemma fixpat_match_cases:
  obtains
    (url) u where "match_url s = Some u" "fixpat_match s = Some (Match u None None)"
  | (sepfile) t where "match_url s = None" "match_sepfile s = Some t"
      "fixpat_match s = Some (Match t None None)"
  | (rfc) t d where "match_url s = None" "match_sepfile s = None" "match_rfc s = Some (t, d)"
      "fixpat_match s = Some (Match t (Some d) None)"
  | (sep) t d where "match_url s = None" "match_sepfile s = None" "match_rfc s = None"
      "match_sep s = Some (t, d)" "fixpat_match s = Some (Match t None (Some d))"
  | (dot) c r where "match_url s = None" "match_sepfile s = None" "match_rfc s = None"
      "match_sep s = None" "s = c # r" "c \<noteq> CHR 0x0A" "fixpat_match s = Some (Match [c] None None)"
  | (none) "match_url s = None" "fixpat_match s = None"
  using fixpat_match_disj [of s] by (elim disjE exE conjE) blast+

lemma fixanchor_total:
  "fixpat_match s = Some m \<Longrightarrow> \<exists>a. fixanchor current m = Inr a"
  by (cases s rule: fixpat_match_cases)
     (auto simp: fixanchor_url fixanchor_sepfile fixanchor_dot dest: fixanchor_rfc fixanchor_sep)

lemma fixpat_match_prefix:
  "fixpat_match s = Some m \<Longrightarrow> take (length (group0 m)) s = group0 m"
  by (cases s rule: fixpat_match_cases)
     (auto simp: match_url_prefix match_sepfile_shape match_rfc_shape match_sep_shape)

subsection \<open>The pieces of a line\<close>

lemma fixpat_scan_step:
  assumes "s \<noteq> []"
  obtains p where "fixpat_scan s = p # fixpat_scan (drop (length (piece_text p)) s)"
    "take (length (piece_text p)) s = piece_text p" "piece_text p \<noteq> []"
    "p = (case fixpat_match s of None \<Rightarrow> Inl (hd s) | Some m \<Rightarrow> Inr m)"
proof -
  obtain c cs where s: "s = c # cs"
    using assms by (cases s) auto
  show ?thesis
  proof (cases "fixpat_match s")
    case None
    then have "fixpat_scan s = Inl c # fixpat_scan (drop (length (piece_text (Inl c))) s)"
      "take (length (piece_text (Inl c))) s = piece_text (Inl c)" "piece_text (Inl c) \<noteq> []"
      "Inl c = (case fixpat_match s of None \<Rightarrow> Inl (hd s) | Some m \<Rightarrow> Inr m)"
      by (simp_all add: s fixpat_scan.simps piece_text_def)
    then show ?thesis
      by (rule that)
  next
    case (Some m)
    then have "fixpat_scan s = Inr m # fixpat_scan (drop (length (piece_text (Inr m))) s)"
      "take (length (piece_text (Inr m))) s = piece_text (Inr m)" "piece_text (Inr m) \<noteq> []"
      "Inr m = (case fixpat_match s of None \<Rightarrow> Inl (hd s) | Some m \<Rightarrow> Inr m)"
      using fixpat_match_prefix [OF Some] fixpat_match_nonempty [OF Some]
      by (simp_all add: s fixpat_scan.simps piece_text_def)
    then show ?thesis
      by (rule that)
  qed
qed

lemma fixpat_scan_text: "pieces_text (fixpat_scan s) = s"
proof (induction s rule: length_induct)
  case (1 s)
  show ?case
  proof (cases "s = []")
    case True
    then show ?thesis by (simp add: fixpat_scan.simps pieces_text_def)
  next
    case False
    then obtain p where p: "fixpat_scan s = p # fixpat_scan (drop (length (piece_text p)) s)"
      "take (length (piece_text p)) s = piece_text p" "piece_text p \<noteq> []"
      by (rule fixpat_scan_step)
    from p(3) False have "length (drop (length (piece_text p)) s) < length s"
      by simp
    with 1 have "pieces_text (fixpat_scan (drop (length (piece_text p)) s))
        = drop (length (piece_text p)) s"
      by blast
    with p(1,2) show ?thesis
      by (simp add: pieces_text_def) (metis append_take_drop_id)
  qed
qed

lemma fixpat_sub_scan:
  "\<exists>outs. list_all2 (replaces_piece current) (fixpat_scan s) outs
      \<and> fixpat_sub current s = Inr (concat outs)"
proof (induction s rule: length_induct)
  case (1 s)
  show ?case
  proof (cases s)
    case Nil
    then show ?thesis by (simp add: fixpat_scan.simps fixpat_sub.simps)
  next
    case (Cons c cs)
    show ?thesis
    proof (cases "fixpat_match s")
      case None
      from 1 Cons obtain outs where "list_all2 (replaces_piece current) (fixpat_scan cs) outs"
        "fixpat_sub current cs = Inr (concat outs)"
        by auto
      then have "list_all2 (replaces_piece current) (fixpat_scan s) ([c] # outs)"
        "fixpat_sub current s = Inr (concat ([c] # outs))"
        using None Cons by (simp_all add: fixpat_scan.simps fixpat_sub.simps replaces_piece_def)
      then show ?thesis
        by blast
    next
      case (Some m)
      from fixanchor_total [OF Some] obtain a where a: "fixanchor current m = Inr a"
        by blast
      have "length (drop (length (group0 m)) s) < length s"
        using fixpat_match_nonempty [OF Some] Cons by simp
      with 1 obtain outs where
        "list_all2 (replaces_piece current) (fixpat_scan (drop (length (group0 m)) s)) outs"
        "fixpat_sub current (drop (length (group0 m)) s) = Inr (concat outs)"
        by blast
      then have "list_all2 (replaces_piece current) (fixpat_scan s) (a # outs)"
        "fixpat_sub current s = Inr (concat (a # outs))"
        using Some Cons a by (simp_all add: fixpat_scan.simps fixpat_sub.simps replaces_piece_def)
      then show ?thesis
        by blast
    qed
  qed
qed

lemma fixpat_scan_piece_at:
  "fixpat_scan s = ps1 @ p # ps2 \<Longrightarrow>
     p = (case fixpat_match (drop (length (pieces_text ps1)) s) of
            None \<Rightarrow> Inl (hd (drop (length (pieces_text ps1)) s))
          | Some m \<Rightarrow> Inr m)"
proof (induction ps1 arbitrary: s)
  case Nil
  then have "s \<noteq> []"
    by (auto simp: fixpat_scan.simps)
  then obtain q where "fixpat_scan s = q # fixpat_scan (drop (length (piece_text q)) s)"
    "q = (case fixpat_match s of None \<Rightarrow> Inl (hd s) | Some m \<Rightarrow> Inr m)"
    by (rule fixpat_scan_step)
  with Nil show ?case
    by (auto simp: pieces_text_def split: option.splits)
next
  case (Cons a ps1)
  then have "s \<noteq> []"
    by (auto simp: fixpat_scan.simps)
  then obtain q where q: "fixpat_scan s = q # fixpat_scan (drop (length (piece_text q)) s)"
    by (rule fixpat_scan_step)
  with Cons.prems have "q = a"
    by simp
  with q Cons.prems have "fixpat_scan (drop (length (piece_text a)) s) = ps1 @ p # ps2"
    by simp
  have "drop (length (pieces_text (a # ps1))) s
      = drop (length (pieces_text ps1)) (drop (length (piece_text a)) s)"
    by (simp add: pieces_text_def add.commute)
  with Cons.IH [OF \<open>fixpat_scan (drop (length (piece_text a)) s) = ps1 @ p # ps2\<close>]
  show ?case
    by (simp cong: option.case_cong)
qed

lemma url_not_inside_other_piece:
  assumes "match_url s = None" and "fixpat_match s = Some m" and "i < length (group0 m)"
  shows "match_url (drop i s) = None"
proof (cases "i = 0")
  case True
  with assms(1) show ?thesis by simp
next
  case False
  then have pos: "0 < i"
    by simp
  have inside: "match_url (drop i s) = None"
    if pre: "take (length t) s = t" and t: "group0 m = t"
      and safe: "\<forall>c \<in> set (tl t). c \<noteq> CHR ''h'' \<and> c \<noteq> CHR ''f''" for t
  proof (rule ccontr)
    assume "match_url (drop i s) \<noteq> None"
    then obtain u where "match_url (drop i s) = Some u"
      by blast
    from match_url_start [OF this] obtain c r where c: "drop i s = c # r"
      "c = CHR ''h'' \<or> c = CHR ''f''"
      by blast
    have "s = t @ drop (length t) s"
      using pre by (metis append_take_drop_id)
    then have "drop i s = drop i t @ drop (length t) s"
      using assms(3) t by (metis drop_inside_prefix)
    moreover have "drop i t \<noteq> []"
      using assms(3) t by simp
    ultimately have "c \<in> set (drop i t)"
      using c(1) by (cases "drop i t") auto
    then have "c \<in> set (tl t)"
      using pos by (metis drop_Suc in_set_dropD Suc_pred')
    with safe c(2) show False
      by blast
  qed
  show ?thesis
  proof (cases s rule: fixpat_match_cases)
    case (url u)
    with assms(1) show ?thesis by simp
  next
    case (sepfile t)
    with assms(2) have t: "group0 m = t"
      by auto
    have "s = t @ drop (length t) s"
      using match_sepfile_shape(1) [OF sepfile(2)] by (metis append_take_drop_id)
    then have "drop i s = drop i t @ drop (length t) s"
      using assms(3) t by (metis drop_inside_prefix)
    then show ?thesis
      using match_sepfile_shape(3) [OF sepfile(2) pos, of "drop (length t) s"] assms(3) t
      by simp
  next
    case (rfc t d)
    with assms(2) have "group0 m = t"
      by auto
    with match_rfc_shape(3,5) [OF rfc(3)] show ?thesis
      by (intro inside)
  next
    case (sep t d)
    with assms(2) have "group0 m = t"
      by auto
    with match_sep_shape(3,5) [OF sep(4)] show ?thesis
      by (intro inside)
  next
    case (dot c r)
    with assms(2,3) False show ?thesis
      by auto
  next
    case none
    with assms(2) show ?thesis by simp
  qed
qed

lemma match_url_Nil [simp]: "match_url [] = None"
  by (simp add: match_url_def url_scheme_def startswith_def)

lemma url_match_covered:
  "match_url (drop i s) = Some u \<Longrightarrow>
   \<exists>ps1 m ps2. fixpat_scan s = ps1 @ Inr m # ps2 \<and> url_scheme (group0 m) \<noteq> []
      \<and> length (pieces_text ps1) \<le> i
      \<and> i + length u = length (pieces_text ps1) + length (group0 m)"
proof (induction s arbitrary: i rule: length_induct)
  case (1 s)
  from "1.prems" have "drop i s \<noteq> []"
    by auto
  then have ne: "s \<noteq> []" and i: "i < length s"
    by auto
  from ne obtain p where p: "fixpat_scan s = p # fixpat_scan (drop (length (piece_text p)) s)"
    "take (length (piece_text p)) s = piece_text p" "piece_text p \<noteq> []"
    "p = (case fixpat_match s of None \<Rightarrow> Inl (hd s) | Some m \<Rightarrow> Inr m)"
    by (rule fixpat_scan_step)
  define n where "n = length (piece_text p)"
  show ?case
  proof (cases "i < n")
    case False
    then have "drop (i - n) (drop n s) = drop i s"
      by simp
    with "1.prems" have "match_url (drop (i - n) (drop n s)) = Some u"
      by simp
    moreover have "length (drop n s) < length s"
      using p(3) ne by (simp add: n_def)
    ultimately obtain ps1 m ps2 where
      "fixpat_scan (drop n s) = ps1 @ Inr m # ps2" "url_scheme (group0 m) \<noteq> []"
      "length (pieces_text ps1) \<le> i - n"
      "i - n + length u = length (pieces_text ps1) + length (group0 m)"
      using "1.IH" by blast
    with p(1) False have "fixpat_scan s = (p # ps1) @ Inr m # ps2" "url_scheme (group0 m) \<noteq> []"
      "length (pieces_text (p # ps1)) \<le> i"
      "i + length u = length (pieces_text (p # ps1)) + length (group0 m)"
      by (simp_all add: n_def pieces_text_def)
    then show ?thesis
      by blast
  next
    case True
    show ?thesis
    proof (cases "fixpat_match s")
      case None
      with p(4) True have "i = 0" "match_url s = None"
        using fixpat_match_disj [of s] by (auto simp: n_def piece_text_def)
      with "1.prems" show ?thesis
        by simp
    next
      case (Some m)
      with p(4) have pm: "p = Inr m" "n = length (group0 m)"
        by (simp_all add: n_def piece_text_def)
      show ?thesis
      proof (cases "match_url s")
        case None
        from url_not_inside_other_piece [OF None Some] True pm "1.prems" show ?thesis
          by simp
      next
        case (Some w)
        with \<open>fixpat_match s = Some m\<close> have w: "group0 m = w"
          using fixpat_match_disj [of s] by auto
        from url_inside_url_same_end [OF Some _ "1.prems"] True pm w
        have "i + length u = length w"
          by simp
        moreover have "url_scheme w \<noteq> []"
          using Some by (rule match_url_scheme)
        ultimately have "fixpat_scan s = [] @ Inr m # fixpat_scan (drop n s)"
          "url_scheme (group0 m) \<noteq> []" "length (pieces_text []) \<le> i"
          "i + length u = length (pieces_text []) + length (group0 m)"
          using p(1) pm w by (simp_all add: pieces_text_def n_def)
        then show ?thesis
          by blast
      qed
    qed
  qed
qed

lemma fixpat_scan_piece_nonempty: "p \<in> set (fixpat_scan s) \<Longrightarrow> piece_text p \<noteq> []"
proof (induction s rule: length_induct)
  case (1 s)
  then have "s \<noteq> []"
    by (auto simp: fixpat_scan.simps)
  then obtain q where q: "fixpat_scan s = q # fixpat_scan (drop (length (piece_text q)) s)"
    "piece_text q \<noteq> []"
    by (rule fixpat_scan_step)
  show ?case
  proof (cases "p = q")
    case True
    with q(2) show ?thesis by simp
  next
    case False
    with q(1) "1.prems" have "p \<in> set (fixpat_scan (drop (length (piece_text q)) s))"
      by simp
    moreover have "length (drop (length (piece_text q)) s) < length s"
      using q(2) \<open>s \<noteq> []\<close> by simp
    ultimately show ?thesis
      using "1.IH" by blast
  qed
qed

section \<open>Header fields that list other documents\<close>

lemma otherseps_loop_all_valid:
  "those (map py_int ts) = Some ns \<Longrightarrow>
     otherseps_loop ts acc = Inr (acc @ concat (map other_sep_link ns))"
proof (induction ts arbitrary: acc ns)
  case Nil
  then show ?case by simp
next
  case (Cons t ts)
  then obtain n ms where n: "py_int t = Some n" and ms: "those (map py_int ts) = Some ms"
    and ns: "ns = n # ms"
    by (auto split: option.splits)
  show ?case
    using Cons.IH [OF ms] n ns by (simp add: other_sep_link_def)
qed

lemma otherseps_loop_some_invalid:
  "\<exists>t \<in> set ts. py_int t = None \<Longrightarrow>
     \<exists>t \<in> set ts. py_int t = None \<and> otherseps_loop ts acc = Inl (ValueError t)"
proof (induction ts arbitrary: acc)
  case Nil
  then show ?case by simp
next
  case (Cons t ts)
  show ?case
  proof (cases "py_int t")
    case None
    then show ?thesis by simp
  next
    case (Some n)
    with Cons.prems have "\<exists>u \<in> set ts. py_int u = None"
      by auto
    from Cons.IH [OF this] Some show ?thesis
      by simp
  qed
qed

lemma header_rows_error:
  "header_rows e inpath sep pre = Inr rows \<Longrightarrow> render_field e inpath sep kv = Inl x \<Longrightarrow>
     header_rows e inpath sep (pre @ kv # post) = Inl x"
proof (induction pre arbitrary: rows)
  case Nil
  then show ?case by simp
next
  case (Cons a pre)
  then show ?case
    by (auto split: sum.splits)
qed

lemma fixfile_header_error:
  "parse_header ls [] [] [] = Inr (header, sep, title, body) \<Longrightarrow>
   header_rows e inpath sep header = Inl x \<Longrightarrow> fixfile e r inpath ls = Inl x"
  by (simp add: fixfile_def)

text \<open>
  Claim C2.  For a header field named \<open>replaces\<close>, \<open>superseded-by\<close> or \<open>requires\<close> (in any
  letter case) the value is split at white space with an optional comma before it.  When
  every token is an integer, the field shows one link to \<open>sep-%04d.html\<close> per token, in
  order.  When some token is not an integer, rendering the field raises a ValueError for
  such a token, and the exception leaves \<open>fixfile\<close>: nothing catches it.
\<close>

theorem replaces_links_or_value_error:
  assumes "lower k \<in> set [''replaces'', ''superseded-by'', ''requires'']"
  shows "(those (map py_int (re_split_comma_ws False [] v)) = Some ns \<longrightarrow>
            render_field e inpath sep (k, v) = Inr (concat (map other_sep_link ns)))
       \<and> ((\<exists>t \<in> set (re_split_comma_ws False [] v). py_int t = None) \<longrightarrow>
            (\<exists>t \<in> set (re_split_comma_ws False [] v). py_int t = None
               \<and> render_field e inpath sep (k, v) = Inl (ValueError t)))
       \<and> (render_field e inpath sep (k, v) = Inl x \<longrightarrow>
            parse_header ls [] [] [] = Inr (pre @ (k, v) # post, sep, title, body) \<longrightarrow>
            header_rows e inpath sep pre = Inr rows \<longrightarrow>
            fixfile e r inpath ls = Inl x)"
proof -
  have not_mail: "lower k \<notin> set [''author'', ''bdfl-delegate'', ''discussions-to'']"
    using assms by auto
  have field: "render_field e inpath sep (k, v) = otherseps_loop (re_split_comma_ws False [] v) []"
    using assms not_mail by (simp add: render_field_def)
  have valid: "those (map py_int (re_split_comma_ws False [] v)) = Some ns \<longrightarrow>
      render_field e inpath sep (k, v) = Inr (concat (map other_sep_link ns))"
    using otherseps_loop_all_valid [of "re_split_comma_ws False [] v" ns "[]"] field by simp
  have invalid: "(\<exists>t \<in> set (re_split_comma_ws False [] v). py_int t = None) \<longrightarrow>
      (\<exists>t \<in> set (re_split_comma_ws False [] v). py_int t = None
         \<and> render_field e inpath sep (k, v) = Inl (ValueError t))"
    using otherseps_loop_some_invalid [of "re_split_comma_ws False [] v" "[]"] field by simp
  have propagates: "render_field e inpath sep (k, v) = Inl x \<longrightarrow>
      parse_header ls [] [] [] = Inr (pre @ (k, v) # post, sep, title, body) \<longrightarrow>
      header_rows e inpath sep pre = Inr rows \<longrightarrow>
      fixfile e r inpath ls = Inl x"
    using header_rows_error fixfile_header_error by blast
  from valid invalid propagates show ?thesis
    by blast
qed

theorem replaces_links_or_value_error_witness:
  \<open>render_field example_env ''sep-0007.txt'' ''7'' (''Replaces'', ''1, 2'')
      = Inr ''<a href="sep-0001.html">1</a> <a href="sep-0002.html">2</a> ''
   \<and> fixfile example_env 0 ''sep-0007.txt'' [''Sep: 7\<newline>'', ''Replaces: abc\<newline>'']
      = Inl (ValueError ''abc'')\<close>
proof -
  have k: "lower ''Replaces'' \<in> set [''replaces'', ''superseded-by'', ''requires'']"
    by code_simp
  have toks1: "those (map py_int (re_split_comma_ws False [] ''1, 2'')) = Some [1, 2]"
    by code_simp
  have links: \<open>concat (map other_sep_link [1, 2])
      = ''<a href="sep-0001.html">1</a> <a href="sep-0002.html">2</a> ''\<close>
    by code_simp
  have toks2: "re_split_comma_ws False [] ''abc'' = [''abc'']"
    by code_simp
  have bad: "py_int ''abc'' = None"
    by code_simp
  have hdr: "parse_header [''Sep: 7\<newline>'', ''Replaces: abc\<newline>''] [] [] []
      = Inr ([(''Sep'', ''7'')] @ (''Replaces'', ''abc'') # [], ''7'', [], [])"
    by code_simp
  have pre: "header_rows example_env ''sep-0007.txt'' ''7'' [(''Sep'', ''7'')]
      = Inr ''  <tr><th>Sep:&nbsp;</th><td>7</td></tr>\<newline>''"
    by code_simp
  note thm1 = replaces_links_or_value_error [OF k, of "''1, 2''" "[1, 2]" example_env
      "''sep-0007.txt''" "''7''"]
  note thm2 = replaces_links_or_value_error [OF k, of "''abc''" _ example_env
      "''sep-0007.txt''" "''7''" "ValueError ''abc''"
      "[''Sep: 7\<newline>'', ''Replaces: abc\<newline>'']" "[(''Sep'', ''7'')]" "[]" "[]" "[]" _ 0]
  have first: \<open>render_field example_env ''sep-0007.txt'' ''7'' (''Replaces'', ''1, 2'')
      = Inr ''<a href="sep-0001.html">1</a> <a href="sep-0002.html">2</a> ''\<close>
    using thm1 toks1 links by simp
  have raised: "render_field example_env ''sep-0007.txt'' ''7'' (''Replaces'', ''abc'')
      = Inl (ValueError ''abc'')"
    using thm2 toks2 bad by simp
  have second: "fixfile example_env 0 ''sep-0007.txt'' [''Sep: 7\<newline>'', ''Replaces: abc\<newline>'']
      = Inl (ValueError ''abc'')"
    using thm2 raised hdr pre by blast
  from first second show ?thesis
    by simp
qed

section \<open>Header fields that list addresses\<close>








section \<open>A document number that is not an integer\<close>

text \<open>
  Claim C6, as amended.  When the value of the \<open>Sep\<close> header is not empty and \<open>int\<close> rejects
  it, the ValueError is caught: nothing is written for the \<open>SEP Source\<close> link, one warning
  line goes to \<open>sys.stderr\<close>, and \<open>fixfile\<close> goes on: when the header fields and the body
  render, it returns the whole document, with the table of header fields right after the
  index link.  An empty value is no document number: no link and no warning.
\<close>

theorem malformed_sep_number_is_warning:
  assumes "sep \<noteq> []" and "py_int sep = None"
  shows \<open>source_link e sep
           = ([], ''ValueError (invalid SEP number): '' @ error_text e (ValueError sep) @ ''\<newline>'')
       \<and> (parse_header ls [] [] [] = Inr (header, sep, title, body) \<longrightarrow>
          header_rows e inpath sep header = Inr rows \<longrightarrow>
          body_loop e inpath sep True body = Inr content \<longrightarrow>
          fixfile e r inpath ls =
            Inr (DTD @ ''\<newline><html>\<newline>'' @ COMMENT @ ''\<newline><head>\<newline>''
                 @ title_line (doc_title sep title)
                 @ navigation r
                 @ index_link inpath
                 @ ''</td></tr></table>\<newline><div class="header">\<newline><table border="0">\<newline>''
                 @ rows
                 @ ''</table>\<newline></div>\<newline><hr />\<newline><div class="content">\<newline>''
                 @ content
                 @ ''</div>\<newline></body>\<newline></html>\<newline>'',
                 ''ValueError (invalid SEP number): '' @ error_text e (ValueError sep) @ ''\<newline>''))
       \<and> source_link e [] = ([], [])\<close>
proof -
  have link: \<open>source_link e sep
      = ([], ''ValueError (invalid SEP number): '' @ error_text e (ValueError sep) @ ''\<newline>'')\<close>
    using assms by (simp add: source_link_def)
  moreover have "source_link e [] = ([], [])"
    by (simp add: source_link_def)
  ultimately show ?thesis
    by (simp add: fixfile_def)
qed

theorem malformed_sep_number_is_warning_witness:
  \<open>fixfile example_env 5 ''sep-0001.txt'' [''Sep: abc\<newline>'', ''Title: T\<newline>'', ''\<newline>'', '' text\<newline>''] =
     Inr (DTD @ ''\<newline><html>\<newline>'' @ COMMENT @ ''\<newline><head>\<newline>''
          @ ''  <title>SEP abc -- T</title>\<newline>''
          @ navigation_head @ ''005'' @ navigation_tail @ ''\<newline>''
          @ ''[<b><a href=".">SEP Index</a></b>]\<newline>''
          @ ''</td></tr></table>\<newline><div class="header">\<newline><table border="0">\<newline>''
          @ ''  <tr><th>Sep:&nbsp;</th><td>abc</td></tr>\<newline>  <tr><th>Title:&nbsp;</th><td>T</td></tr>\<newline>''
          @ ''</table>\<newline></div>\<newline><hr />\<newline><div class="content">\<newline>''
          @ ''<pre>\<newline> text\<newline></pre>\<newline>''
          @ ''</div>\<newline></body>\<newline></html>\<newline>'',
          ''ValueError (invalid SEP number): invalid literal for int() with base 10: ''
          @ [CHR 0x27] @ ''abc'' @ [CHR 0x27] @ ''\<newline>'')\<close>
proof -
  have s: "''abc'' \<noteq> []" by simp
  have i: "py_int ''abc'' = None" by code_simp
  have h: "parse_header [''Sep: abc\<newline>'', ''Title: T\<newline>'', ''\<newline>'', '' text\<newline>''] [] [] []
      = Inr ([(''Sep'', ''abc''), (''Title'', ''T'')], ''abc'', ''T'', ['' text\<newline>''])"
    by code_simp
  have rws: "header_rows example_env ''sep-0001.txt'' ''abc'' [(''Sep'', ''abc''), (''Title'', ''T'')]
      = Inr ''  <tr><th>Sep:&nbsp;</th><td>abc</td></tr>\<newline>  <tr><th>Title:&nbsp;</th><td>T</td></tr>\<newline>''"
    by code_simp
  have b: "body_loop example_env ''sep-0001.txt'' ''abc'' True ['' text\<newline>'']
      = Inr ''<pre>\<newline> text\<newline></pre>\<newline>''"
    by code_simp
  have t: "title_line (doc_title ''abc'' ''T'') = ''  <title>SEP abc -- T</title>\<newline>''"
    by code_simp
  have x: \<open>index_link ''sep-0001.txt'' = ''[<b><a href=".">SEP Index</a></b>]\<newline>''\<close>
    by code_simp
  have m: "error_text example_env (ValueError ''abc'')
      = ''invalid literal for int() with base 10: '' @ [CHR 0x27] @ ''abc'' @ [CHR 0x27]"
    by (simp add: example_env_def)
  have n: "navigation 5 = navigation_head @ ''005'' @ navigation_tail @ ''\<newline>''"
    by code_simp
  show ?thesis
    using malformed_sep_number_is_warning [OF s i, of example_env _ _ _ _ "''sep-0001.txt''" _ _ 5]
      h rws b t x m n
    by simp
qed

text \<open>
  Claim C6 as stated fails for a \<open>Sep\<close> header with an empty value: the value is not an
  integer, and nothing is written to \<open>sys.stderr\<close>.
\<close>

theorem empty_sep_number_no_warning:
  \<open>py_int [] = None
   \<and> parse_header [''Sep:\<newline>'', ''Title: T\<newline>''] [] [] []
       = Inr ([(''Sep'', []), (''Title'', ''T'')], [], ''T'', [])
   \<and> fixfile example_env 0 ''sep-0001.txt'' [''Sep:\<newline>'', ''Title: T\<newline>''] =
       Inr (DTD @ ''\<newline><html>\<newline>'' @ COMMENT @ ''\<newline><head>\<newline>''
            @ ''  <title>T</title>\<newline>''
            @ navigation_head @ ''000'' @ navigation_tail @ ''\<newline>''
            @ ''[<b><a href=".">SEP Index</a></b>]\<newline>''
            @ ''</td></tr></table>\<newline><div class="header">\<newline><table border="0">\<newline>''
            @ ''  <tr><th>Sep:&nbsp;</th><td></td></tr>\<newline>  <tr><th>Title:&nbsp;</th><td>T</td></tr>\<newline>''
            @ ''</table>\<newline></div>\<newline><hr />\<newline><div class="content">\<newline>''
            @ ''</div>\<newline></body>\<newline></html>\<newline>'', [])\<close>
  by code_simp

section \<open>A header without a title\<close>







section \<open>Two runs on the same input\<close>



section \<open>The combined substitution of a body line\<close>

text \<open>
  Claim C3.  \<open>fixpat.sub\<close> cuts the line into consecutive pieces that together are the whole
  line, and replaces each piece on its own: a copied character by itself, a match by what
  \<open>fixanchor\<close> returns for it; it never raises.  The piece that starts at a position is
  decided by the alternatives in their order: the URL when it matches there, else the
  \<open>sep-N\<close> file name, else \<open>RFC N\<close>, else \<open>SEP N\<close>, else the single character (a newline is
  copied).  Wherever the URL alternative matches in the line, at the start of a piece or not,
  the whole match lies in a piece that is a URL match and ends where that piece ends, so no
  other piece overlaps it.
\<close>

theorem fixpat_sub_single_pass_in_order:
  "pieces_text (fixpat_scan line) = line
 \<and> (\<exists>outs. list_all2 (replaces_piece current) (fixpat_scan line) outs
        \<and> fixpat_sub current line = Inr (concat outs))
 \<and> (fixpat_scan line = ps1 @ p # ps2 \<and> rest = drop (length (pieces_text ps1)) line \<longrightarrow>
       (match_url rest = Some u \<longrightarrow> p = Inr (Match u None None))
     \<and> (match_url rest = None \<and> match_sepfile rest = Some t \<longrightarrow> p = Inr (Match t None None))
     \<and> (match_url rest = None \<and> match_sepfile rest = None \<and> match_rfc rest = Some (t, d) \<longrightarrow>
          p = Inr (Match t (Some d) None))
     \<and> (match_url rest = None \<and> match_sepfile rest = None \<and> match_rfc rest = None
          \<and> match_sep rest = Some (t, d) \<longrightarrow> p = Inr (Match t None (Some d)))
     \<and> (match_url rest = None \<and> match_sepfile rest = None \<and> match_rfc rest = None
          \<and> match_sep rest = None \<longrightarrow>
          p = (if hd rest = CHR 0x0A then Inl (hd rest) else Inr (Match [hd rest] None None))))
 \<and> (match_url (drop i line) = Some w \<longrightarrow>
       (\<exists>qs1 m qs2. fixpat_scan line = qs1 @ Inr m # qs2 \<and> is_url_piece (Inr m)
          \<and> length (pieces_text qs1) \<le> i
          \<and> i + length w = length (pieces_text qs1) + length (group0 m)))"
proof -
  have order: "(match_url rest = Some u \<longrightarrow> p = Inr (Match u None None))
     \<and> (match_url rest = None \<and> match_sepfile rest = Some t \<longrightarrow> p = Inr (Match t None None))
     \<and> (match_url rest = None \<and> match_sepfile rest = None \<and> match_rfc rest = Some (t, d) \<longrightarrow>
          p = Inr (Match t (Some d) None))
     \<and> (match_url rest = None \<and> match_sepfile rest = None \<and> match_rfc rest = None
          \<and> match_sep rest = Some (t, d) \<longrightarrow> p = Inr (Match t None (Some d)))
     \<and> (match_url rest = None \<and> match_sepfile rest = None \<and> match_rfc rest = None
          \<and> match_sep rest = None \<longrightarrow>
          p = (if hd rest = CHR 0x0A then Inl (hd rest) else Inr (Match [hd rest] None None)))"
    if scan: "fixpat_scan line = ps1 @ p # ps2" and rest: "rest = drop (length (pieces_text ps1)) line"
  proof -
    have "piece_text p \<noteq> []"
      using scan by (intro fixpat_scan_piece_nonempty [of p line]) simp
    then have "length (pieces_text ps1) < length (pieces_text (fixpat_scan line))"
      using scan by (simp add: pieces_text_def)
    then have "rest \<noteq> []"
      using rest by (simp add: fixpat_scan_text)
    then obtain c cs where c: "rest = c # cs"
      by (cases rest) auto
    from fixpat_scan_piece_at [OF scan]
    have p: "p = (case fixpat_match rest of None \<Rightarrow> Inl (hd rest) | Some m \<Rightarrow> Inr m)"
      unfolding rest .
    show ?thesis
      unfolding p by (auto simp: fixpat_match_def match_dot_def c)
  qed
  have covered: "\<exists>qs1 m qs2. fixpat_scan line = qs1 @ Inr m # qs2 \<and> is_url_piece (Inr m)
          \<and> length (pieces_text qs1) \<le> i
          \<and> i + length w = length (pieces_text qs1) + length (group0 m)"
    if "match_url (drop i line) = Some w"
    using url_match_covered [OF that] by (simp add: is_url_piece_def)
  show ?thesis
    using fixpat_scan_text [of line] fixpat_sub_scan [of current line] order covered
    by blast
qed

theorem fixpat_sub_single_pass_in_order_witness:
  \<open>match_url (drop 2 ''a http://x/SEP 1'') = Some ''http://x/SEP''
   \<and> match_sep (drop 11 ''a http://x/SEP 1'') = Some (''SEP 1'', ''1'')
   \<and> pieces_text (fixpat_scan ''a http://x/SEP 1'') = ''a http://x/SEP 1''
   \<and> (\<exists>qs1 m qs2. fixpat_scan ''a http://x/SEP 1'' = qs1 @ Inr m # qs2 \<and> is_url_piece (Inr m)
          \<and> length (pieces_text qs1) \<le> 2
          \<and> 2 + length ''http://x/SEP'' = length (pieces_text qs1) + length (group0 m))
   \<and> fixpat_scan ''a http://x/SEP 1''
        = [Inr (Match ''a'' None None), Inr (Match '' '' None None)]
          @ Inr (Match ''http://x/SEP'' None None)
          # [Inr (Match '' '' None None), Inr (Match ''1'' None None)]\<close>
proof -
  let ?line = "''a http://x/SEP 1''"
  have u: "match_url (drop 2 ?line) = Some ''http://x/SEP''"
    by code_simp
  have x: "match_sep (drop 11 ?line) = Some (''SEP 1'', ''1'')"
    by code_simp
  have scan: "fixpat_scan ?line
        = [Inr (Match ''a'' None None), Inr (Match '' '' None None)]
          @ Inr (Match ''http://x/SEP'' None None)
          # [Inr (Match '' '' None None), Inr (Match ''1'' None None)]"
    by code_simp
  note inst = fixpat_sub_single_pass_in_order [of "?line" "''sep-0001.txt''" _ _ _ _ _ _ _ 2 "''http://x/SEP''"]
  from inst have "pieces_text (fixpat_scan ?line) = ?line"
    by blast
  moreover from inst u have "\<exists>qs1 m qs2. fixpat_scan ?line = qs1 @ Inr m # qs2 \<and> is_url_piece (Inr m)
          \<and> length (pieces_text qs1) \<le> 2
          \<and> 2 + length ''http://x/SEP'' = length (pieces_text qs1) + length (group0 m)"
    by blast
  ultimately show ?thesis
    using u x scan by blast
qed


section \<open>URLs in body lines\<close>








section \<open>Summary lines of the index document\<close>









section \<open>The order of the feed\<close>

lemma items_loop_built_from:
  "items_loop fs n xs = Inr items \<Longrightarrow>
   list_all2 (\<lambda>it x. rss_pubDate it = fst x
       \<and> rss_description it
           = ''Author: '' @ format_s (firstline_startingwith (fs (snd x)) ''Author:''))
     items xs"
proof (induction xs arbitrary: n items)
  case Nil
  then show ?case by simp
next
  case (Cons x xs)
  obtain dt p where x: "x = (dt, p)"
    by (cases x)
  from Cons.prems obtain k rest where k: "items_loop fs (Some k) xs = Inr rest"
    and items: "items = make_item fs k dt p # rest"
    unfolding x by (auto split: option.splits sum.splits)
  from Cons.IH [OF k] show ?case
    by (simp add: items x make_item_def)
qed

lemma seps_with_dt_pairs:
  "seps_with_dt epoch fs seps = Inr pairs \<Longrightarrow>
   list_all2 (\<lambda>x p. snd x = p \<and> sep_creation_dt epoch (fs p) = Inr (fst x)) pairs seps"
proof (induction seps arbitrary: pairs)
  case Nil
  then show ?case by simp
next
  case (Cons p seps)
  from Cons.prems obtain dt rest where "sep_creation_dt epoch (fs p) = Inr dt"
    "seps_with_dt epoch fs seps = Inr rest" "pairs = (dt, p) # rest"
    by (auto split: sum.splits)
  with Cons.IH [of rest] show ?case
    by simp
qed

lemma descending_positions:
  fixes ys :: "('a :: linorder) list"
  assumes "sorted (rev ys)" and "x \<in> set ys" and "y \<in> set ys" and "y < x"
  shows "\<exists>i j. i < j \<and> j < length ys \<and> ys ! i = x \<and> ys ! j = y"
proof -
  from assms(2,3) obtain i j where i: "i < length ys" "ys ! i = x" and j: "j < length ys" "ys ! j = y"
    by (auto simp: in_set_conv_nth)
  have "i < j"
  proof (rule ccontr)
    assume "\<not> i < j"
    then have "j \<le> i"
      by simp
    with assms(1) i(1) have "ys ! i \<le> ys ! j"
      by (simp add: sorted_rev_nth_mono)
    with i(2) j(2) assms(4) show False
      by simp
  qed
  with i j show ?thesis
    by blast
qed

lemma sort_reverse_descending: "sorted (rev (sort_reverse pairs))"
  by (simp add: sort_reverse_def)

lemma sort_reverse_mset: "mset (sort_reverse pairs) = mset pairs"
  by (simp add: sort_reverse_def)

lemma sort_reverse_dates_descending: "sorted (rev (map fst (take k (sort_reverse pairs))))"
proof -
  have mono: "sorted (map fst xs)" if "sorted xs" for xs :: "(datetime \<times> string) list"
    using that by (induction xs) (auto simp: less_eq_prod_def)
  have "take k (rev (sort pairs)) = rev (drop (length pairs - k) (sort pairs))"
    by (simp add: take_rev)
  then have "rev (map fst (take k (sort_reverse pairs)))
      = map fst (drop (length pairs - k) (sort pairs))"
    by (simp add: sort_reverse_def rev_map)
  moreover have "sorted (drop (length pairs - k) (sort pairs))"
    by (simp add: sorted_wrt_drop)
  ultimately show ?thesis
    using mono by simp
qed

lemma sep_creation_dt_epoch:
  "firstline_startingwith lines ''Created:'' = Some c \<Longrightarrow> search_date c = None \<Longrightarrow>
   sep_creation_dt epoch lines = Inr epoch"
  by (simp add: sep_creation_dt_def)

text \<open>
  Claim C8, as amended.  Whenever the feed is built: every document has the creation date
  that \<open>sep_creation_dt\<close> parses from its first \<open>Created:\<close> line, which is the epoch when the
  line holds no date; the documents are sorted by date, newest first, all of them; a
  document with a later date than another stands before it, so a document dated at the
  epoch stands after every document dated later than the epoch; the items are built, in this
  order, from the first ten documents (from all when there are fewer), and their dates never
  increase.
\<close>

theorem feed_items_newest_first:
  assumes "seps_with_dt epoch fs seps = Inr pairs" and "feed_items epoch fs seps = Inr items"
  shows "list_all2 (\<lambda>x p. snd x = p \<and> sep_creation_dt epoch (fs p) = Inr (fst x)) pairs seps
    \<and> (\<forall>p \<in> set seps. \<forall>c. firstline_startingwith (fs p) ''Created:'' = Some c
          \<and> search_date c = None \<longrightarrow> (epoch, p) \<in> set pairs)
    \<and> mset (sort_reverse pairs) = mset pairs
    \<and> sorted (rev (sort_reverse pairs))
    \<and> (\<forall>x \<in> set pairs. \<forall>y \<in> set pairs. fst y < fst x \<longrightarrow>
          (\<exists>i j. i < j \<and> j < length pairs \<and> sort_reverse pairs ! i = x \<and> sort_reverse pairs ! j = y))
    \<and> list_all2 (\<lambda>it x. rss_pubDate it = fst x
            \<and> rss_description it
                = ''Author: '' @ format_s (firstline_startingwith (fs (snd x)) ''Author:''))
          items (take 10 (sort_reverse pairs))
    \<and> length items = min 10 (length seps)
    \<and> sorted (rev (map rss_pubDate items))"
proof -
  have pairs: "list_all2 (\<lambda>x p. snd x = p \<and> sep_creation_dt epoch (fs p) = Inr (fst x)) pairs seps"
    using assms(1) by (rule seps_with_dt_pairs)
  have epoch: "(epoch, p) \<in> set pairs"
    if "p \<in> set seps" and "firstline_startingwith (fs p) ''Created:'' = Some c"
      and "search_date c = None" for p c
  proof -
    from that(1) obtain i where i: "i < length seps" "seps ! i = p"
      by (auto simp: in_set_conv_nth)
    define x where "x = pairs ! i"
    from pairs i have "x \<in> set pairs" "snd x = p"
      "sep_creation_dt epoch (fs p) = Inr (fst x)"
      by (auto simp: list_all2_conv_all_nth x_def)
    with sep_creation_dt_epoch [OF that(2,3), of epoch] show ?thesis
      by (cases x) simp
  qed
  have order: "\<exists>i j. i < j \<and> j < length pairs \<and> sort_reverse pairs ! i = x \<and> sort_reverse pairs ! j = y"
    if "x \<in> set pairs" "y \<in> set pairs" "fst y < fst x" for x y
  proof -
    from that(3) have "y < x"
      by (simp add: less_prod_def)
    moreover have "x \<in> set (sort_reverse pairs)" "y \<in> set (sort_reverse pairs)"
      using that(1,2) by (simp_all add: sort_reverse_def)
    ultimately show ?thesis
      using descending_positions [OF sort_reverse_descending, of x pairs y]
      by (simp add: sort_reverse_def)
  qed
  from assms have loop: "items_loop fs None (take 10 (sort_reverse pairs)) = Inr items"
    by (simp add: feed_items_def)
  have built: "list_all2 (\<lambda>it x. rss_pubDate it = fst x
            \<and> rss_description it
                = ''Author: '' @ format_s (firstline_startingwith (fs (snd x)) ''Author:''))
          items (take 10 (sort_reverse pairs))"
    using loop by (rule items_loop_built_from)
  have len: "length items = min 10 (length seps)"
    using list_all2_lengthD [OF built] list_all2_lengthD [OF pairs]
    by (simp add: sort_reverse_def min.commute)
  have "map rss_pubDate items = map fst (take 10 (sort_reverse pairs))"
    using built by (induction rule: list_all2_induct) simp_all
  then have dates: "sorted (rev (map rss_pubDate items))"
    using sort_reverse_dates_descending [of 10 pairs] by simp
  from pairs epoch sort_reverse_mset sort_reverse_descending order built len dates
  show ?thesis
    by blast
qed

theorem feed_items_newest_first_witness:
  "seps_with_dt (1970, 1, 1, 0, 0, 0) example_files [''sep-0001.txt'', ''sep-0002.txt'']
     = Inr [((2020, 1, 1, 0, 0, 0), ''sep-0001.txt''), ((2020, 1, 2, 0, 0, 0), ''sep-0002.txt'')]
   \<and> feed_items (1970, 1, 1, 0, 0, 0) example_files [''sep-0001.txt'', ''sep-0002.txt'']
     = Inr [make_item example_files 2 (2020, 1, 2, 0, 0, 0) ''sep-0002.txt'',
            make_item example_files 1 (2020, 1, 1, 0, 0, 0) ''sep-0001.txt'']
   \<and> (\<exists>i j. i < j \<and> j < 2
        \<and> sort_reverse [((2020, 1, 1, 0, 0, 0), ''sep-0001.txt''),
                         ((2020, 1, 2, 0, 0, 0), ''sep-0002.txt'')] ! i
            = ((2020, 1, 2, 0, 0, 0), ''sep-0002.txt'')
        \<and> sort_reverse [((2020, 1, 1, 0, 0, 0), ''sep-0001.txt''),
                         ((2020, 1, 2, 0, 0, 0), ''sep-0002.txt'')] ! j
            = ((2020, 1, 1, 0, 0, 0), ''sep-0001.txt''))"
proof -
  define pairs :: "(datetime \<times> string) list" where
    "pairs = [((2020, 1, 1, 0, 0, 0), ''sep-0001.txt''), ((2020, 1, 2, 0, 0, 0), ''sep-0002.txt'')]"
  define items where "items = [make_item example_files 2 (2020, 1, 2, 0, 0, 0) ''sep-0002.txt'',
            make_item example_files 1 (2020, 1, 1, 0, 0, 0) ''sep-0001.txt'']"
  have p: "seps_with_dt (1970, 1, 1, 0, 0, 0) example_files [''sep-0001.txt'', ''sep-0002.txt'']
      = Inr pairs"
    unfolding pairs_def by code_simp
  have f: "feed_items (1970, 1, 1, 0, 0, 0) example_files [''sep-0001.txt'', ''sep-0002.txt'']
      = Inr items"
    unfolding items_def by code_simp
  have mem: "((2020, 1, 2, 0, 0, 0), ''sep-0002.txt'') \<in> set pairs"
    "((2020, 1, 1, 0, 0, 0), ''sep-0001.txt'') \<in> set pairs"
    by (simp_all add: pairs_def)
  have lt: "fst ((2020 :: nat, 1 :: nat, 1 :: nat, 0 :: nat, 0 :: nat, 0 :: nat), ''sep-0001.txt'')
      < fst ((2020 :: nat, 1 :: nat, 2 :: nat, 0 :: nat, 0 :: nat, 0 :: nat), ''sep-0002.txt'')"
    by simp
  have len: "length pairs = 2"
    by (simp add: pairs_def)
  from feed_items_newest_first [OF p f] mem lt
  have "\<exists>i j. i < j \<and> j < length pairs
      \<and> sort_reverse pairs ! i = ((2020, 1, 2, 0, 0, 0), ''sep-0002.txt'')
      \<and> sort_reverse pairs ! j = ((2020, 1, 1, 0, 0, 0), ''sep-0001.txt'')"
    by blast
  then have "\<exists>i j. i < j \<and> j < 2
      \<and> sort_reverse pairs ! i = ((2020, 1, 2, 0, 0, 0), ''sep-0002.txt'')
      \<and> sort_reverse pairs ! j = ((2020, 1, 1, 0, 0, 0), ''sep-0001.txt'')"
    unfolding len .
  with p f show ?thesis
    unfolding pairs_def items_def by blast
qed

text \<open>
  Claim C8 as stated fails where it says that a document without a date sorts last: it gets
  the epoch, and a document created before 1970 sorts after it.
\<close>

theorem undated_document_not_last:
  "firstline_startingwith (example_files ''sep-0003.txt'') ''Created:'' = Some []
   \<and> search_date [] = None
   \<and> seps_with_dt (1970, 1, 1, 0, 0, 0) example_files [''sep-0003.txt'', ''sep-0004.txt'']
     = Inr [((1970, 1, 1, 0, 0, 0), ''sep-0003.txt''), ((1960, 1, 1, 0, 0, 0), ''sep-0004.txt'')]
   \<and> feed_items (1970, 1, 1, 0, 0, 0) example_files [''sep-0003.txt'', ''sep-0004.txt'']
     = Inr [make_item example_files 3 (1970, 1, 1, 0, 0, 0) ''sep-0003.txt'',
            make_item example_files 4 (1960, 1, 1, 0, 0, 0) ''sep-0004.txt'']"
  by code_simp


section \<open>A file name without a number\<close>

text \<open>
  Claim C10.  When the text between the last \<open>-\<close> of the path and the next \<open>.\<close> is not an
  integer, the ValueError is swallowed and \<open>n\<close> stays as it was.  In the first iteration \<open>n\<close>
  is unbound and the script stops with a NameError.  Later the item is built with the
  number \<open>k\<close> that an earlier document left in \<open>n\<close>, for instance the document just before:
  its title and its link name document \<open>k\<close>, not the document of the item.
\<close>

theorem unparsable_number_keeps_previous_number:
  assumes "py_int (number_text full_path) = None"
  shows "items_loop fs None ((dt, full_path) # rest) = Inl NameError
    \<and> items_loop fs (Some k) ((dt, full_path) # rest) =
        (case items_loop fs (Some k) rest of
           Inl x \<Rightarrow> Inl x
         | Inr items \<Rightarrow> Inr (make_item fs k dt full_path # items))
    \<and> (py_int (number_text previous) = Some k \<longrightarrow>
        items_loop fs n ((dt0, previous) # (dt, full_path) # rest) =
          (case items_loop fs (Some k) rest of
             Inl x \<Rightarrow> Inl x
           | Inr items \<Rightarrow>
               Inr (make_item fs k dt0 previous # make_item fs k dt full_path # items)))
    \<and> rss_title (make_item fs k dt full_path)
        = ''SEP '' @ fmt_d k @ '': '' @ format_s (firstline_startingwith (fs full_path) ''Title:'')
    \<and> rss_link (make_item fs k dt full_path)
        = ''http://www.python.org/dev/seps/sep-'' @ fmt_prec_d 4 k"
  using assms by (auto simp: make_item_def split: sum.splits)

theorem unparsable_number_keeps_previous_number_witness:
  "py_int (number_text ''sep-draft.txt'') = None
   \<and> items_loop example_files None [((2019, 1, 3, 0, 0, 0), ''sep-draft.txt'')] = Inl NameError
   \<and> items_loop example_files None
        [((2020, 1, 2, 0, 0, 0), ''sep-0002.txt''), ((2019, 1, 3, 0, 0, 0), ''sep-draft.txt'')]
      = Inr [make_item example_files 2 (2020, 1, 2, 0, 0, 0) ''sep-0002.txt'',
             make_item example_files 2 (2019, 1, 3, 0, 0, 0) ''sep-draft.txt'']
   \<and> rss_title (make_item example_files 2 (2019, 1, 3, 0, 0, 0) ''sep-draft.txt'') = ''SEP 2: Draft''
   \<and> rss_link (make_item example_files 2 (2019, 1, 3, 0, 0, 0) ''sep-draft.txt'')
      = ''http://www.python.org/dev/seps/sep-0002''"
proof -
  have bad: "py_int (number_text ''sep-draft.txt'') = None"
    by code_simp
  have good: "py_int (number_text ''sep-0002.txt'') = Some 2"
    by code_simp
  have t: "''SEP '' @ fmt_d 2 @ '': ''
      @ format_s (firstline_startingwith (example_files ''sep-draft.txt'') ''Title:'') = ''SEP 2: Draft''"
    by code_simp
  have l: "''http://www.python.org/dev/seps/sep-'' @ fmt_prec_d 4 2
      = ''http://www.python.org/dev/seps/sep-0002''"
    by code_simp
  note inst = unparsable_number_keeps_previous_number [OF bad, of example_files "(2019, 1, 3, 0, 0, 0)"
      "[]" 2 "''sep-0002.txt''" None "(2020, 1, 2, 0, 0, 0)"]
  from inst have "items_loop example_files None [((2019, 1, 3, 0, 0, 0), ''sep-draft.txt'')] = Inl NameError"
    by blast
  moreover from inst good have "items_loop example_files None
        [((2020, 1, 2, 0, 0, 0), ''sep-0002.txt''), ((2019, 1, 3, 0, 0, 0), ''sep-draft.txt'')]
      = Inr [make_item example_files 2 (2020, 1, 2, 0, 0, 0) ''sep-0002.txt'',
             make_item example_files 2 (2019, 1, 3, 0, 0, 0) ''sep-draft.txt'']"
    by simp
  moreover from inst t
  have "rss_title (make_item example_files 2 (2019, 1, 3, 0, 0, 0) ''sep-draft.txt'') = ''SEP 2: Draft''"
    by simp
  moreover from inst l
  have "rss_link (make_item example_files 2 (2019, 1, 3, 0, 0, 0) ''sep-draft.txt'')
      = ''http://www.python.org/dev/seps/sep-0002''"
    by simp
  ultimately show ?thesis
    using bad by blast
qed

end
